theory Spec2Isabelle
  imports Main "HOL-Library.Word"
begin

section \<open>Bytes, strings and errors\<close>

text \<open>
  A Go \<open>string\<close> and a Go \<open>[]byte\<close> are both sequences of bytes; the conversions
  \<open>string(data)\<close> and \<open>[]byte(param)\<close> copy the bytes unchanged. Both are modelled by
  \<open>string\<close> (a list of 8-bit characters), and the conversions by the identity.
\<close>

definition quote_ch :: char where
  "quote_ch = CHR 0x22"

definition backslash_ch :: char where
  "backslash_ch = CHR 0x5C"

definition quoted :: "string \<Rightarrow> string" where
  "quoted s = quote_ch # s @ [quote_ch]"

text \<open>
  The Go \<open>error\<close> values that the package returns or passes on. \<open>ErrorString m\<close> is an
  error built by \<open>fmt.Errorf\<close> or \<open>errors.New\<close> with message \<open>m\<close>. \<open>JSONError\<close>
  stands for the \<open>*json.SyntaxError\<close> or \<open>*json.UnmarshalTypeError\<close> of
  \<open>json.Unmarshal\<close>; \<open>InvalidNumberLiteral item\<close> for its error on a string literal
  that does not hold a number; \<open>NumError num e\<close> for the \<open>*strconv.NumError\<close> of
  \<open>strconv.ParseInt\<close> on the text \<open>num\<close>; \<open>ParseError\<close> for the \<open>*time.ParseError\<close>
  of \<open>time.Parse\<close>.
\<close>

datatype strconv_err = ErrSyntax | ErrRange

datatype error =
    ErrorString string
  | JSONError
  | InvalidNumberLiteral string
  | NumError string strconv_err
  | ParseError

section \<open>The Go library functions the package calls\<close>

subsection \<open>Package strings\<close>

text \<open>
  \<open>strings.Trim(s, cutset)\<close> removes every leading and every trailing byte of \<open>s\<close> that
  occurs in \<open>cutset\<close> (the package only passes the one-byte cutset of the double quote).
\<close>

definition strings_Trim :: "string \<Rightarrow> string \<Rightarrow> string" where
  "strings_Trim s cutset =
     rev (dropWhile (\<lambda>c. c \<in> set cutset) (rev (dropWhile (\<lambda>c. c \<in> set cutset) s)))"

text \<open>
  \<open>strings.ToLower\<close> on the letters \<open>A\<close> to \<open>Z\<close>. Bytes outside ASCII are left as they
  are here; Go maps the runes they encode through \<open>unicode.ToLower\<close>, which yields bytes
  outside ASCII again, or one of the letters \<open>i\<close> and \<open>k\<close>: the result is the same as
  far as the comparison with \<open>true\<close> and \<open>false\<close> goes, the only use the package makes
  of it.
\<close>

definition toLower_byte :: "char \<Rightarrow> char" where
  "toLower_byte c =
     (case map_of (zip ''ABCDEFGHIJKLMNOPQRSTUVWXYZ'' ''abcdefghijklmnopqrstuvwxyz'') c of
        Some l \<Rightarrow> l
      | None \<Rightarrow> c)"

definition strings_ToLower :: "string \<Rightarrow> string" where
  "strings_ToLower s = map toLower_byte s"

subsection \<open>Decimal digits: package fmt and package strconv\<close>

definition isDigit :: "char \<Rightarrow> bool" where
  "isDigit c = (c \<in> set ''0123456789'')"

definition digit_char :: "nat \<Rightarrow> char" where
  "digit_char d = ''0123456789'' ! d"

definition digit_val :: "char \<Rightarrow> nat" where
  "digit_val c = of_char c - 48"

fun dec_nat :: "nat \<Rightarrow> string" where
  "dec_nat n = (if n < 10 then [digit_char n] else dec_nat (n div 10) @ [digit_char (n mod 10)])"

declare dec_nat.simps [simp del]

text \<open>\<open>fmt.Appendf(nil, "%d", i)\<close>: the decimal digits of \<open>i\<close>, after a minus sign when
  \<open>i\<close> is negative.\<close>

definition fmt_d :: "int \<Rightarrow> string" where
  "fmt_d i = (if i < 0 then CHR ''-'' # dec_nat (nat (- i)) else dec_nat (nat i))"

text \<open>The value of a sequence of decimal digits, most significant first.\<close>

definition dec_val :: "string \<Rightarrow> nat" where
  "dec_val ds = foldl (\<lambda>n c. 10 * n + digit_val c) 0 ds"

text \<open>
  \<open>strconv.ParseUint(s, 10, 64)\<close>. The loop reads the text once, from the left: a
  character that is no digit is \<open>ErrSyntax\<close>, and a digit at which the 64-bit number
  overflows is \<open>ErrRange\<close>, whichever comes first. \<open>n\<close> is the number read so far; the
  first overflow test is \<open>n >= cutoff\<close> with \<open>cutoff = maxUint64/10 + 1\<close>, the second that
  of \<open>n*10 + d\<close> against \<open>maxUint64\<close>.
\<close>

definition maxUint64 :: nat where
  "maxUint64 = 2 ^ 64 - 1"

fun ParseUint_loop :: "nat \<Rightarrow> string \<Rightarrow> strconv_err + nat" where
  "ParseUint_loop n [] = Inr n"
| "ParseUint_loop n (c # cs) =
     (if \<not> isDigit c then Inl ErrSyntax
      else if n \<ge> maxUint64 div 10 + 1 then Inl ErrRange
      else
        let n1 = 10 * n + digit_val c
        in if n1 > maxUint64 then Inl ErrRange else ParseUint_loop n1 cs)"

definition strconv_ParseUint :: "string \<Rightarrow> strconv_err + nat" where
  "strconv_ParseUint s = (if s = [] then Inl ErrSyntax else ParseUint_loop 0 s)"

text \<open>
  \<open>strconv.ParseInt(s, 10, 64)\<close>: the sign, \<open>ParseUint\<close> on the rest, and the check of
  the result against the cutoff \<open>2 ^ 63\<close>. After an \<open>ErrRange\<close> of \<open>ParseUint\<close> the value
  is \<open>maxUint64\<close>, which fails that check for either sign: it stays an \<open>ErrRange\<close>.
\<close>

definition strconv_ParseInt :: "string \<Rightarrow> error + 64 word" where
  "strconv_ParseInt s0 =
     (if s0 = [] then Inl (NumError s0 ErrSyntax)
      else
        let neg = (hd s0 = CHR ''-'');
            s = (if hd s0 = CHR ''+'' \<or> hd s0 = CHR ''-'' then tl s0 else s0)
        in case strconv_ParseUint s of
             Inl e \<Rightarrow> Inl (NumError s0 e)
           | Inr un \<Rightarrow>
               if \<not> neg \<and> un \<ge> 2 ^ 63 then Inl (NumError s0 ErrRange)
               else if neg \<and> un > 2 ^ 63 then Inl (NumError s0 ErrRange)
               else Inr (if neg then - word_of_nat un else word_of_nat un))"

subsection \<open>Package unicode/utf8\<close>

definition RuneError :: nat where
  "RuneError = 0xFFFD"

text \<open>
  \<open>utf8.DecodeRune\<close>: the rune at the head of the bytes and its width. A malformed
  head yields \<open>(RuneError, 1)\<close>, no byte at all \<open>(RuneError, 0)\<close>. The second byte of a
  sequence must lie in the range that the first byte admits (this excludes overlong
  forms, surrogates and runes above \<open>U+10FFFF\<close>), later bytes in \<open>0x80..0xBF\<close>.
\<close>

definition utf8_cont :: "nat \<Rightarrow> bool" where
  "utf8_cont b = (0x80 \<le> b \<and> b \<le> 0xBF)"

definition utf8_first :: "nat \<Rightarrow> (nat \<times> nat \<times> nat) option" where
  "utf8_first p0 =
     (if 0xC2 \<le> p0 \<and> p0 \<le> 0xDF then Some (2, 0x80, 0xBF)
      else if p0 = 0xE0 then Some (3, 0xA0, 0xBF)
      else if p0 = 0xED then Some (3, 0x80, 0x9F)
      else if 0xE1 \<le> p0 \<and> p0 \<le> 0xEF then Some (3, 0x80, 0xBF)
      else if p0 = 0xF0 then Some (4, 0x90, 0xBF)
      else if p0 = 0xF4 then Some (4, 0x80, 0x8F)
      else if 0xF1 \<le> p0 \<and> p0 \<le> 0xF3 then Some (4, 0x80, 0xBF)
      else None)"

definition utf8_DecodeRune :: "string \<Rightarrow> nat \<times> nat" where
  "utf8_DecodeRune p =
     (case map of_char p of
        [] \<Rightarrow> (RuneError, 0)
      | p0 # bs \<Rightarrow>
          if p0 < 0x80 then (p0, 1)
          else
            (case utf8_first p0 of
               None \<Rightarrow> (RuneError, 1)
             | Some (sz, lo, hi) \<Rightarrow>
                 if length bs < sz - 1 then (RuneError, 1)
                 else if bs ! 0 < lo \<or> hi < bs ! 0 then (RuneError, 1)
                 else if sz = 2 then ((p0 mod 32) * 64 + bs ! 0 mod 64, 2)
                 else if \<not> utf8_cont (bs ! 1) then (RuneError, 1)
                 else if sz = 3 then
                   ((p0 mod 16) * 4096 + (bs ! 0 mod 64) * 64 + bs ! 1 mod 64, 3)
                 else if \<not> utf8_cont (bs ! 2) then (RuneError, 1)
                 else ((p0 mod 8) * 262144 + (bs ! 0 mod 64) * 4096
                         + (bs ! 1 mod 64) * 64 + bs ! 2 mod 64, 4)))"

text \<open>\<open>utf8.EncodeRune\<close>: a surrogate or a rune above \<open>U+10FFFF\<close> is written as
  \<open>RuneError\<close>.\<close>

definition utf8_EncodeRune :: "nat \<Rightarrow> string" where
  "utf8_EncodeRune r =
     (if r \<le> 0x7F then [char_of r]
      else if r \<le> 0x7FF then [char_of (0xC0 + r div 64), char_of (0x80 + r mod 64)]
      else if r > 0x10FFFF \<or> (0xD800 \<le> r \<and> r \<le> 0xDFFF) then
        [CHR 0xEF, CHR 0xBF, CHR 0xBD]
      else if r \<le> 0xFFFF then
        [char_of (0xE0 + r div 4096), char_of (0x80 + r div 64 mod 64), char_of (0x80 + r mod 64)]
      else
        [char_of (0xF0 + r div 262144), char_of (0x80 + r div 4096 mod 64),
         char_of (0x80 + r div 64 mod 64), char_of (0x80 + r mod 64)])"

text \<open>\<open>utf8.ValidString\<close>: every position decodes to a well-formed sequence.\<close>

function utf8_Valid :: "string \<Rightarrow> bool" where
  "utf8_Valid [] = True"
| "utf8_Valid (c # cs) =
     (let (r, width) = utf8_DecodeRune (c # cs)
      in \<not> (r = RuneError \<and> width = 1) \<and> utf8_Valid (drop (width - 1) cs))"
  by pat_completeness auto
termination
  by (relation "measure length") auto

declare utf8_Valid.simps [simp del]

subsection \<open>Package encoding/json: tokens\<close>

text \<open>
  \<open>isValidNumber\<close>, the grammar of a JSON number: an optional minus sign, \<open>0\<close> or a
  digit sequence that does not start with \<open>0\<close>, an optional fraction, an optional
  exponent. The decoder's scanner accepts the same grammar for a number token.
\<close>

definition isValidNumber_exp :: "string \<Rightarrow> bool" where
  "isValidNumber_exp s =
     (if length s \<ge> 2 \<and> (hd s = CHR ''e'' \<or> hd s = CHR ''E'') then
        let s1 = tl s
        in if hd s1 = CHR ''+'' \<or> hd s1 = CHR ''-'' then
             (let s2 = tl s1 in if s2 = [] then False else dropWhile isDigit s2 = [])
           else dropWhile isDigit s1 = []
      else s = [])"

definition isValidNumber_frac :: "string \<Rightarrow> bool" where
  "isValidNumber_frac s =
     (if length s \<ge> 2 \<and> hd s = CHR ''.'' \<and> isDigit (s ! 1) then
        isValidNumber_exp (dropWhile isDigit (drop 2 s))
      else isValidNumber_exp s)"

definition isValidNumber :: "string \<Rightarrow> bool" where
  "isValidNumber s0 =
     (if s0 = [] then False
      else
        let s = (if hd s0 = CHR ''-'' then tl s0 else s0)
        in if s = [] then False
           else if hd s = CHR ''0'' then isValidNumber_frac (tl s)
           else if hd s \<in> set ''123456789'' then isValidNumber_frac (dropWhile isDigit (tl s))
           else False)"

text \<open>The white space that the decoder skips around a value.\<close>

definition json_isSpace :: "char \<Rightarrow> bool" where
  "json_isSpace c = (c = CHR '' '' \<or> c = CHR 0x09 \<or> c = CHR 0x0D \<or> c = CHR 0x0A)"

definition json_trim :: "string \<Rightarrow> string" where
  "json_trim s = rev (dropWhile json_isSpace (rev (dropWhile json_isSpace s)))"

text \<open>\<open>getu4\<close> on the four characters after \<open>\u\<close>: their value as hexadecimal
  digits.\<close>

definition hex_val :: "char \<Rightarrow> nat option" where
  "hex_val c =
     (let n = of_char c
      in if 48 \<le> n \<and> n \<le> 57 then Some (n - 48)
         else if 97 \<le> n \<and> n \<le> 102 then Some (n - 87)
         else if 65 \<le> n \<and> n \<le> 70 then Some (n - 55)
         else None)"

definition getu4 :: "string \<Rightarrow> nat option" where
  "getu4 s =
     (case s of
        a # b # c # d # _ \<Rightarrow>
          (case (hex_val a, hex_val b, hex_val c, hex_val d) of
             (Some x, Some y, Some z, Some w) \<Rightarrow> Some (x * 4096 + y * 256 + z * 16 + w)
           | _ \<Rightarrow> None)
      | _ \<Rightarrow> None)"

text \<open>\<open>utf16.IsSurrogate\<close> and \<open>utf16.DecodeRune\<close>.\<close>

definition utf16_IsSurrogate :: "nat \<Rightarrow> bool" where
  "utf16_IsSurrogate r = (0xD800 \<le> r \<and> r < 0xE000)"

definition utf16_DecodeRune :: "nat \<Rightarrow> nat option \<Rightarrow> nat" where
  "utf16_DecodeRune r1 r2 =
     (case r2 of
        Some l \<Rightarrow>
          if 0xD800 \<le> r1 \<and> r1 < 0xDC00 \<and> 0xDC00 \<le> l \<and> l < 0xE000 then
            (r1 - 0xD800) * 1024 + (l - 0xDC00) + 0x10000
          else RuneError
      | None \<Rightarrow> RuneError)"

text \<open>The byte that a two-character escape stands for.\<close>

definition simple_escape :: "char \<Rightarrow> char option" where
  "simple_escape e =
     (if e = quote_ch \<or> e = backslash_ch \<or> e = CHR ''/'' then Some e
      else if e = CHR ''b'' then Some (CHR 0x08)
      else if e = CHR ''f'' then Some (CHR 0x0C)
      else if e = CHR ''n'' then Some (CHR 0x0A)
      else if e = CHR ''r'' then Some (CHR 0x0D)
      else if e = CHR ''t'' then Some (CHR 0x09)
      else None)"

text \<open>
  The text between the quotes of a string literal, as the scanner checks it and
  \<open>unquoteBytes\<close> decodes it: a raw quote or control character is refused, an escape is
  replaced by what it stands for (a lone surrogate by \<open>U+FFFD\<close>), and bytes outside
  ASCII are decoded and encoded again, which coerces them to well-formed UTF-8.
  \<open>None\<close> is the scanner's syntax error.
\<close>

function unquote_body :: "string \<Rightarrow> string option" where
  "unquote_body [] = Some []"
| "unquote_body (c # rest) =
     (if c = backslash_ch then
        (case rest of
           [] \<Rightarrow> None
         | e # rest1 \<Rightarrow>
             if e = CHR ''u'' then
               (case getu4 rest1 of
                  None \<Rightarrow> None
                | Some rr \<Rightarrow>
                    let rest2 = drop 4 rest1
                    in if utf16_IsSurrogate rr then
                         (let rr1 = (if take 2 rest2 = [backslash_ch, CHR ''u'']
                                     then getu4 (drop 2 rest2) else None);
                              dec = utf16_DecodeRune rr rr1
                          in if dec \<noteq> RuneError then
                               map_option ((@) (utf8_EncodeRune dec)) (unquote_body (drop 6 rest2))
                             else
                               map_option ((@) (utf8_EncodeRune RuneError)) (unquote_body rest2))
                       else map_option ((@) (utf8_EncodeRune rr)) (unquote_body rest2))
             else
               (case simple_escape e of
                  None \<Rightarrow> None
                | Some b \<Rightarrow> map_option ((#) b) (unquote_body rest1)))
      else if c = quote_ch \<or> (of_char c :: nat) < 0x20 then None
      else if (of_char c :: nat) < 0x80 then map_option ((#) c) (unquote_body rest)
      else
        (let (rr, width) = utf8_DecodeRune (c # rest)
         in map_option ((@) (utf8_EncodeRune rr)) (unquote_body (drop (width - 1) rest))))"
  by pat_completeness auto
termination
  by (relation "measure length") auto

declare unquote_body.simps [simp del]

text \<open>A whole string literal: the opening quote, the body, the closing quote.\<close>

definition json_unquote :: "string \<Rightarrow> string option" where
  "json_unquote item =
     (case item of
        [] \<Rightarrow> None
      | q # rest \<Rightarrow>
          if q = quote_ch \<and> rest \<noteq> [] \<and> last rest = quote_ch
          then unquote_body (butlast rest) else None)"

subsection \<open>Package encoding/json: Unmarshal and Marshal\<close>

text \<open>
  \<open>json.Unmarshal(data, &v)\<close> for a \<open>string\<close> variable holding \<open>cur\<close>. The input must
  be one JSON value with optional white space around it. A string literal is stored
  decoded; \<open>null\<close> leaves the variable as it is and is no error; every other value
  (number, boolean, array, object) is an \<open>UnmarshalTypeError\<close>, and everything else a
  \<open>SyntaxError\<close>. On an error the variable keeps its value.
\<close>

definition json_Unmarshal_string :: "string \<Rightarrow> string \<Rightarrow> error + string" where
  "json_Unmarshal_string data cur =
     (let item = json_trim data
      in if item = ''null'' then Inr cur
         else (case json_unquote item of Some t \<Rightarrow> Inr t | None \<Rightarrow> Inl JSONError))"

text \<open>
  \<open>json.Unmarshal(data, &v)\<close> for a \<open>json.Number\<close> variable holding \<open>cur\<close>. A number
  token is stored as its text. A string literal is stored decoded when its content is a
  valid number, and is the error \<open>invalid number literal\<close> otherwise.
\<close>

definition json_Unmarshal_Number :: "string \<Rightarrow> string \<Rightarrow> error + string" where
  "json_Unmarshal_Number data cur =
     (let item = json_trim data
      in if item = ''null'' then Inr cur
         else if isValidNumber item then Inr item
         else
           (case json_unquote item of
              Some t \<Rightarrow> if isValidNumber t then Inr t else Inl (InvalidNumberLiteral item)
            | None \<Rightarrow> Inl JSONError))"

text \<open>\<open>json.Number.Int64\<close>.\<close>

definition Number_Int64 :: "string \<Rightarrow> error + 64 word" where
  "Number_Int64 n = strconv_ParseInt n"

text \<open>
  \<open>json.Marshal\<close> of a string (\<open>appendString\<close> with HTML escaping, the default of
  \<open>json.Marshal\<close>): the quote and the backslash get a backslash, control characters and
  \<open><\<close>, \<open>>\<close>, \<open>&\<close> an escape, a byte that is not well-formed UTF-8 becomes
  the escape of \<open>U+FFFD\<close>, and \<open>U+2028\<close>, \<open>U+2029\<close> are escaped. It never fails.
\<close>

definition hex_char :: "nat \<Rightarrow> char" where
  "hex_char d = ''0123456789abcdef'' ! d"

definition htmlSafe :: "char \<Rightarrow> bool" where
  "htmlSafe b =
     ((of_char b :: nat) \<ge> 0x20 \<and> b \<noteq> quote_ch \<and> b \<noteq> backslash_ch
      \<and> b \<noteq> CHR ''<'' \<and> b \<noteq> CHR ''>'' \<and> b \<noteq> CHR ''&'')"

definition escape_byte :: "char \<Rightarrow> string" where
  "escape_byte b =
     (if b = backslash_ch \<or> b = quote_ch then [backslash_ch, b]
      else if b = CHR 0x08 then [backslash_ch, CHR ''b'']
      else if b = CHR 0x0C then [backslash_ch, CHR ''f'']
      else if b = CHR 0x0A then [backslash_ch, CHR ''n'']
      else if b = CHR 0x0D then [backslash_ch, CHR ''r'']
      else if b = CHR 0x09 then [backslash_ch, CHR ''t'']
      else [backslash_ch, CHR ''u'', CHR ''0'', CHR ''0'',
            hex_char (of_char b div 16), hex_char (of_char b mod 16)])"

function appendString :: "string \<Rightarrow> string" where
  "appendString [] = []"
| "appendString (b # rest) =
     (if (of_char b :: nat) < 0x80 then
        (if htmlSafe b then b # appendString rest
         else escape_byte b @ appendString rest)
      else
        (let (c, width) = utf8_DecodeRune (b # rest)
         in if c = RuneError \<and> width = 1 then
              backslash_ch # ''ufffd'' @ appendString rest
            else if c = 0x2028 \<or> c = 0x2029 then
              backslash_ch # ''u202'' @ [hex_char (c mod 16)]
                @ appendString (drop (width - 1) rest)
            else take width (b # rest) @ appendString (drop (width - 1) rest)))"
  by pat_completeness auto
termination
  by (relation "measure length") auto

declare appendString.simps [simp del]

definition json_Marshal_string :: "string \<Rightarrow> string \<times> error option" where
  "json_Marshal_string s = (quoted (appendString s), None)"

subsection \<open>Package time: values\<close>

text \<open>
  A \<open>time.Time\<close> is modelled by what its methods \<open>Date\<close>, \<open>Clock\<close>, \<open>Nanosecond\<close> and
  \<open>Zone\<close> report: the calendar date and the clock in the time's own location, and the
  offset of that location in seconds east of UTC. This is what \<open>time.Date\<close> builds a
  time from and what formatting reads. The name of the location and the monotonic clock
  reading are left out: neither parsing a layout with a numeric offset nor formatting
  depends on them.
\<close>

record time_Time =
  tm_year :: int
  tm_month :: nat
  tm_day :: nat
  tm_hour :: nat
  tm_min :: nat
  tm_sec :: nat
  tm_nsec :: nat
  tm_offset :: int

text \<open>\<open>time.Time{}\<close>: January 1 of year 1, 00:00:00 UTC.\<close>

definition time_zero :: time_Time where
  "time_zero = \<lparr>tm_year = 1, tm_month = 1, tm_day = 1, tm_hour = 0, tm_min = 0,
                 tm_sec = 0, tm_nsec = 0, tm_offset = 0\<rparr>"

definition isLeap :: "int \<Rightarrow> bool" where
  "isLeap y = (y mod 4 = 0 \<and> (y mod 100 \<noteq> 0 \<or> y mod 400 = 0))"

definition daysIn :: "nat \<Rightarrow> int \<Rightarrow> nat" where
  "daysIn m y =
     (if m = 2 \<and> isLeap y then 29
      else [31, 28, 31, 30, 31, 30, 31, 31, 30, 31, 30, 31] ! (m - 1))"

subsection \<open>Package time: Parse\<close>

text \<open>
  The elements of a layout that occur in the layouts of this package: \<open>2006\<close>, \<open>01\<close>,
  \<open>02\<close>, \<open>15\<close>, \<open>04\<close>, \<open>05\<close>, \<open>Z07:00\<close> and \<open>MST\<close>. A layout is kept as the list of
  chunks that \<open>nextStdChunk\<close> cuts it into: each element with the literal text before
  it. None of the layouts here has literal text after its last element.
\<close>

datatype std_chunk =
    stdLongYear
  | stdZeroMonth
  | stdZeroDay
  | stdHour
  | stdZeroMinute
  | stdZeroSecond
  | stdISO8601ColonTZ
  | stdTZ

type_synonym layout = "(string \<times> std_chunk) list"

text \<open>
  \<open>leadingInt\<close>: the number written by the digits at the head of a text, and the rest
  of the text; \<open>None\<close> is \<open>errLeadingInt\<close>, for a number beyond \<open>1 << 63\<close>.
\<close>

fun leadingInt_loop :: "nat \<Rightarrow> string \<Rightarrow> (nat \<times> string) option" where
  "leadingInt_loop x [] = Some (x, [])"
| "leadingInt_loop x (c # cs) =
     (if \<not> isDigit c then Some (x, c # cs)
      else if x > 2 ^ 63 div 10 then None
      else let x1 = x * 10 + digit_val c
           in if x1 > 2 ^ 63 then None else leadingInt_loop x1 cs)"

definition leadingInt :: "string \<Rightarrow> (nat \<times> string) option" where
  "leadingInt s = leadingInt_loop 0 s"

text \<open>\<open>atoi\<close> of package time: an optional sign and digits up to the end of the text;
  \<open>None\<close> is \<open>errAtoi\<close>.\<close>

definition time_atoi :: "string \<Rightarrow> int option" where
  "time_atoi s0 =
     (let neg = (s0 \<noteq> [] \<and> hd s0 = CHR ''-'');
          s = (if s0 \<noteq> [] \<and> (hd s0 = CHR ''-'' \<or> hd s0 = CHR ''+'') then tl s0 else s0)
      in case leadingInt s of
           None \<Rightarrow> None
         | Some (q, rem) \<Rightarrow>
             if rem \<noteq> [] then None else Some (if neg then - int q else int q))"

text \<open>
  \<open>parseSignedOffset\<close>: the length of a sign and a number of at most 23 at the head of
  the text, or 0. Its callers pass a text that is not empty. \<open>parseGMT\<close>: the length
  of \<open>GMT\<close> with such an offset, if one follows.
\<close>

definition parseSignedOffset :: "string \<Rightarrow> nat" where
  "parseSignedOffset v =
     (if hd v \<noteq> CHR ''-'' \<and> hd v \<noteq> CHR ''+'' then 0
      else case leadingInt (tl v) of
             None \<Rightarrow> 0
           | Some (x, rem) \<Rightarrow>
               if tl v = rem then 0
               else if x > 23 then 0
               else length v - length rem)"

definition parseGMT :: "string \<Rightarrow> nat" where
  "parseGMT v0 =
     (let v = drop 3 v0
      in if length v = 0 then 3 else 3 + parseSignedOffset v)"

definition upper_letter :: "char \<Rightarrow> bool" where
  "upper_letter c = (c \<in> set ''ABCDEFGHIJKLMNOPQRSTUVWXYZ'')"

text \<open>
  \<open>parseTimeZone\<close>: the length of the zone abbreviation at the head of the text, if
  there is one. It looks at the letters only: \<open>ChST\<close> and \<open>MeST\<close>, \<open>GMT\<close> with an
  optional offset in hours, a signed number of hours, or a run of three upper-case
  letters, of four that ends in \<open>T\<close> or is \<open>WITA\<close>, or of five that ends in \<open>T\<close>.
  \<open>nUpper\<close> counts the upper-case letters at the head, up to six.
\<close>

definition parseTimeZone :: "string \<Rightarrow> nat option" where
  "parseTimeZone v =
     (if length v < 3 then None
      else if take 4 v = ''ChST'' \<or> take 4 v = ''MeST'' then Some 4
      else if take 3 v = ''GMT'' then Some (parseGMT v)
      else if hd v = CHR ''+'' \<or> hd v = CHR ''-'' then
        (let n = parseSignedOffset v in if n > 0 then Some n else None)
      else
        (let nUpper = length (takeWhile upper_letter (take 6 v))
         in if nUpper = 5 then (if v ! 4 = CHR ''T'' then Some 5 else None)
            else if nUpper = 4 then
              (if v ! 3 = CHR ''T'' \<or> take 4 v = ''WITA'' then Some 4 else None)
            else if nUpper = 3 then Some 3
            else None))"

text \<open>
  What \<open>time.Parse\<close> takes from the host is its \<open>Local\<close> location, which only matters
  to a zone abbreviation, hence to the layout with \<open>MST\<close>. \<open>lookupName zs name t\<close> is
  \<open>None\<close> when \<open>Local\<close> has no zone of that name; otherwise it is the time that
  \<open>Parse\<close> returns for the abbreviation \<open>name\<close>, where \<open>t\<close> holds the parsed date and
  clock: the instant that reads \<open>t\<close> at the offset found, in \<open>Local\<close>. The host is a
  parameter of the model.
\<close>

record zones =
  lookupName :: "string \<Rightarrow> time_Time \<Rightarrow> time_Time option"

text \<open>A host whose \<open>Local\<close> is UTC: that location has no zone to look up, and the name
  \<open>UTC\<close> itself is recognised by \<open>Parse\<close> before any lookup.\<close>

definition utc_host :: zones where
  "utc_host = \<lparr>lookupName = (\<lambda>name t. None)\<rparr>"

text \<open>
  The date and clock of a time read in a location that is a whole number \<open>h\<close> of hours
  east of the one it is given in, for \<open>h\<close> between \<open>-23\<close> and \<open>23\<close>: at most the day
  before or the day after.
\<close>

definition next_day :: "time_Time \<Rightarrow> time_Time" where
  "next_day t =
     (if tm_day t < daysIn (tm_month t) (tm_year t) then t\<lparr>tm_day := tm_day t + 1\<rparr>
      else if tm_month t < 12 then t\<lparr>tm_month := tm_month t + 1, tm_day := 1\<rparr>
      else t\<lparr>tm_year := tm_year t + 1, tm_month := 1, tm_day := 1\<rparr>)"

definition prev_day :: "time_Time \<Rightarrow> time_Time" where
  "prev_day t =
     (if 1 < tm_day t then t\<lparr>tm_day := tm_day t - 1\<rparr>
      else if 1 < tm_month t then
        t\<lparr>tm_month := tm_month t - 1, tm_day := daysIn (tm_month t - 1) (tm_year t)\<rparr>
      else t\<lparr>tm_year := tm_year t - 1, tm_month := 12, tm_day := 31\<rparr>)"

definition add_hours :: "int \<Rightarrow> time_Time \<Rightarrow> time_Time" where
  "add_hours h t =
     (let k = int (tm_hour t) + h
      in if k < 0 then (prev_day t)\<lparr>tm_hour := nat (k + 24)\<rparr>
         else if 24 \<le> k then (next_day t)\<lparr>tm_hour := nat (k - 24)\<rparr>
         else t\<lparr>tm_hour := nat k\<rparr>)"

text \<open>The state of the loop in \<open>parse\<close>: the rest of the value and the fields read so
  far, with their defaults.\<close>

record parse_state =
  ps_value :: string
  ps_year :: nat
  ps_month :: nat
  ps_day :: nat
  ps_hour :: nat
  ps_min :: nat
  ps_sec :: nat
  ps_nsec :: nat
  ps_utc :: bool
  ps_zoneOffset :: int
  ps_zoneName :: string

definition parse_init :: "string \<Rightarrow> parse_state" where
  "parse_init v =
     \<lparr>ps_value = v, ps_year = 0, ps_month = 0, ps_day = 0, ps_hour = 0, ps_min = 0,
      ps_sec = 0, ps_nsec = 0, ps_utc = False, ps_zoneOffset = - 1, ps_zoneName = []\<rparr>"

definition cutspace :: "string \<Rightarrow> string" where
  "cutspace s = dropWhile (\<lambda>c. c = CHR '' '') s"

text \<open>\<open>skip\<close> removes the literal text \<open>prefix\<close> from the value; a space of the layout
  stands for any run of spaces.\<close>

function skip :: "string \<Rightarrow> string \<Rightarrow> string option" where
  "skip v [] = Some v"
| "skip v (p # prefix) =
     (if p = CHR '' '' then
        (if v \<noteq> [] \<and> hd v \<noteq> CHR '' '' then None
         else skip (cutspace v) (cutspace prefix))
      else if v = [] \<or> hd v \<noteq> p then None
      else skip (tl v) prefix)"
  by pat_completeness auto
termination
  by (relation "measure (\<lambda>(v, prefix). length prefix)")
     (auto simp: cutspace_def intro: le_imp_less_Suc length_dropWhile_le)

text \<open>\<open>getnum\<close> reads one or two digits; with \<open>fixed\<close> it insists on two.\<close>

definition getnum :: "string \<Rightarrow> bool \<Rightarrow> (nat \<times> string) option" where
  "getnum s fixed =
     (if s = [] \<or> \<not> isDigit (hd s) then None
      else if length s < 2 \<or> \<not> isDigit (s ! 1) then
        (if fixed then None else Some (digit_val (hd s), tl s))
      else Some (digit_val (hd s) * 10 + digit_val (s ! 1), drop 2 s))"

definition commaOrPeriod :: "char \<Rightarrow> bool" where
  "commaOrPeriod c = (c = CHR ''.'' \<or> c = CHR '','')"

text \<open>\<open>parseNanoseconds(value, nbytes)\<close>: the digits after the separator, at most nine
  of them, scaled to nanoseconds.\<close>

definition parseNanoseconds :: "string \<Rightarrow> nat \<Rightarrow> nat" where
  "parseNanoseconds v nbytes =
     (let n = min nbytes 10
      in dec_val (take (n - 1) (tl v)) * 10 ^ (10 - n))"

text \<open>
  One element of the layout against the head of the value: one case of the \<open>switch\<close> in
  \<open>parse\<close>. \<open>None\<close> is a \<open>ParseError\<close>, be it for a malformed or for an out of range
  field. The seconds may be followed by a fraction that the layout does not mention: no
  layout of this package has a fraction element, so it is always read.
\<close>

definition parse_std :: "std_chunk \<Rightarrow> parse_state \<Rightarrow> parse_state option" where
  "parse_std std st =
     (let v = ps_value st in
      case std of
        stdLongYear \<Rightarrow>
          if length v < 4 \<or> \<not> isDigit (hd v) \<or> \<not> list_all isDigit (take 4 v) then None
          else Some (st\<lparr>ps_year := dec_val (take 4 v), ps_value := drop 4 v\<rparr>)
      | stdZeroMonth \<Rightarrow>
          (case getnum v True of
             None \<Rightarrow> None
           | Some (m, v') \<Rightarrow>
               if m \<le> 0 \<or> 12 < m then None else Some (st\<lparr>ps_month := m, ps_value := v'\<rparr>))
      | stdZeroDay \<Rightarrow>
          (case getnum v True of
             None \<Rightarrow> None
           | Some (d, v') \<Rightarrow> Some (st\<lparr>ps_day := d, ps_value := v'\<rparr>))
      | stdHour \<Rightarrow>
          (case getnum v False of
             None \<Rightarrow> None
           | Some (h, v') \<Rightarrow>
               if 24 \<le> h then None else Some (st\<lparr>ps_hour := h, ps_value := v'\<rparr>))
      | stdZeroMinute \<Rightarrow>
          (case getnum v True of
             None \<Rightarrow> None
           | Some (m, v') \<Rightarrow>
               if 60 \<le> m then None else Some (st\<lparr>ps_min := m, ps_value := v'\<rparr>))
      | stdZeroSecond \<Rightarrow>
          (case getnum v True of
             None \<Rightarrow> None
           | Some (s, v') \<Rightarrow>
               if 60 \<le> s then None
               else if length v' \<ge> 2 \<and> commaOrPeriod (hd v') \<and> isDigit (v' ! 1) then
                 (let n = 1 + length (takeWhile isDigit (tl v'))
                  in Some (st\<lparr>ps_sec := s, ps_nsec := parseNanoseconds v' n,
                              ps_value := drop n v'\<rparr>))
               else Some (st\<lparr>ps_sec := s, ps_value := v'\<rparr>))
      | stdISO8601ColonTZ \<Rightarrow>
          if v \<noteq> [] \<and> hd v = CHR ''Z'' then Some (st\<lparr>ps_utc := True, ps_value := tl v\<rparr>)
          else if length v < 6 then None
          else if v ! 3 \<noteq> CHR '':'' then None
          else
            (case (getnum (take 2 (drop 1 v)) True, getnum (take 2 (drop 4 v)) True) of
               (Some (hr, _), Some (mm, _)) \<Rightarrow>
                 if hr > 24 \<or> mm > 60 then None
                 else if hd v = CHR ''+'' then
                   Some (st\<lparr>ps_zoneOffset := int ((hr * 60 + mm) * 60), ps_value := drop 6 v\<rparr>)
                 else if hd v = CHR ''-'' then
                   Some (st\<lparr>ps_zoneOffset := - int ((hr * 60 + mm) * 60), ps_value := drop 6 v\<rparr>)
                 else None
             | _ \<Rightarrow> None)
      | stdTZ \<Rightarrow>
          if take 3 v = ''UTC'' then Some (st\<lparr>ps_utc := True, ps_value := drop 3 v\<rparr>)
          else
            (case parseTimeZone v of
               None \<Rightarrow> None
             | Some n \<Rightarrow> Some (st\<lparr>ps_zoneName := take n v, ps_value := drop n v\<rparr>)))"

text \<open>The loop of \<open>parse\<close>: the literal text and the element of each chunk in turn;
  text left over after the last chunk is an error.\<close>

fun parse_chunks :: "layout \<Rightarrow> parse_state \<Rightarrow> parse_state option" where
  "parse_chunks [] st = (if ps_value st \<noteq> [] then None else Some st)"
| "parse_chunks ((prefix, std) # rest) st =
     (case skip (ps_value st) prefix of
        None \<Rightarrow> None
      | Some v \<Rightarrow>
          (case parse_std std (st\<lparr>ps_value := v\<rparr>) of
             None \<Rightarrow> None
           | Some st' \<Rightarrow> parse_chunks rest st'))"

text \<open>
  \<open>time.Parse(layout, value)\<close>. After the loop the day is checked against the month,
  and the time is built: in UTC for \<open>Z\<close> or \<open>UTC\<close>; with the offset that was read;
  for a zone abbreviation, as the host's \<open>Local\<close> has it or, when \<open>Local\<close> does not
  know the name, as the instant that reads the parsed date and clock in UTC, in a made-up
  zone of that name whose offset is 0, or the hours after \<open>GMT\<close>; or else in UTC, the
  default location of \<open>Parse\<close>. The short cut that \<open>Parse\<close> takes for the layout
  \<open>RFC3339\<close> accepts fewer values than the loop and yields the same times, so it is not
  modelled apart.
\<close>

definition time_Parse :: "zones \<Rightarrow> layout \<Rightarrow> string \<Rightarrow> error + time_Time" where
  "time_Parse zs l v =
     (case parse_chunks l (parse_init v) of
        None \<Rightarrow> Inl ParseError
      | Some st \<Rightarrow>
          if ps_day st < 1 \<or> ps_day st > daysIn (ps_month st) (int (ps_year st))
          then Inl ParseError
          else
            let t = \<lparr>tm_year = int (ps_year st), tm_month = ps_month st, tm_day = ps_day st,
                     tm_hour = ps_hour st, tm_min = ps_min st, tm_sec = ps_sec st,
                     tm_nsec = ps_nsec st, tm_offset = 0\<rparr>;
                zoneName = ps_zoneName st
            in if ps_utc st then Inr t
               else if ps_zoneOffset st \<noteq> - 1 then Inr (t\<lparr>tm_offset := ps_zoneOffset st\<rparr>)
               else if zoneName \<noteq> [] then
                 (case lookupName zs zoneName t of
                    Some t' \<Rightarrow> Inr t'
                  | None \<Rightarrow>
                      if length zoneName > 3 \<and> take 3 zoneName = ''GMT'' then
                        (let h = (case time_atoi (drop 3 zoneName) of
                                    None \<Rightarrow> 0 | Some x \<Rightarrow> x)
                         in Inr ((add_hours h t)\<lparr>tm_offset := h * 3600\<rparr>))
                      else Inr t)
               else Inr t)"

text \<open>The layout \<open>time.RFC3339\<close>, \<open>2006-01-02T15:04:05Z07:00\<close>.\<close>

definition RFC3339 :: layout where
  "RFC3339 =
     [([], stdLongYear), (''-'', stdZeroMonth), (''-'', stdZeroDay), (''T'', stdHour),
      ('':'', stdZeroMinute), ('':'', stdZeroSecond), ([], stdISO8601ColonTZ)]"

subsection \<open>Package time: MarshalJSON\<close>

definition pad2 :: "nat \<Rightarrow> string" where
  "pad2 n = [digit_char (n div 10 mod 10), digit_char (n mod 10)]"

definition pad4 :: "nat \<Rightarrow> string" where
  "pad4 n = [digit_char (n div 1000 mod 10), digit_char (n div 100 mod 10),
             digit_char (n div 10 mod 10), digit_char (n mod 10)]"

definition pad9 :: "nat \<Rightarrow> string" where
  "pad9 n = map (\<lambda>k. digit_char (n div 10 ^ k mod 10)) [8, 7, 6, 5, 4, 3, 2, 1, 0]"

text \<open>The fraction of a second of \<open>RFC3339Nano\<close>: nothing when it is zero, else nine
  digits without their trailing zeros.\<close>

definition formatNano :: "nat \<Rightarrow> string" where
  "formatNano ns =
     (if ns = 0 then []
      else CHR ''.'' # rev (dropWhile (\<lambda>c. c = CHR ''0'') (rev (pad9 ns))))"

text \<open>The offset in minutes, rounded towards zero as Go's division does.\<close>

definition zone_minutes :: "int \<Rightarrow> nat" where
  "zone_minutes off = nat \<bar>off\<bar> div 60"

definition formatZone :: "int \<Rightarrow> string" where
  "formatZone off =
     (if off = 0 then ''Z''
      else (if off \<le> - 60 then CHR ''-'' else CHR ''+'')
             # pad2 (zone_minutes off div 60) @ '':'' @ pad2 (zone_minutes off mod 60))"

definition formatRFC3339Nano :: "time_Time \<Rightarrow> string" where
  "formatRFC3339Nano t =
     pad4 (nat (tm_year t)) @ ''-'' @ pad2 (tm_month t) @ ''-'' @ pad2 (tm_day t) @ ''T''
       @ pad2 (tm_hour t) @ '':'' @ pad2 (tm_min t) @ '':'' @ pad2 (tm_sec t)
       @ formatNano (tm_nsec t) @ formatZone (tm_offset t)"

text \<open>
  \<open>time.Time.MarshalJSON\<close> (as of Go 1.20): the time in the layout \<open>RFC3339Nano\<close>
  between quotes. A year that does not have four digits, and an offset of 24 hours or
  more, are errors.
\<close>

definition time_MarshalJSON :: "time_Time \<Rightarrow> string \<times> error option" where
  "time_MarshalJSON t =
     (if tm_year t < 0 \<or> 9999 < tm_year t then
        ([], Some (ErrorString ''Time.MarshalJSON: year outside of range [0,9999]''))
      else if tm_offset t \<noteq> 0 \<and> 24 \<le> zone_minutes (tm_offset t) div 60 then
        ([], Some (ErrorString ''Time.MarshalJSON: timezone hour outside of range [0,23]''))
      else (quoted (formatRFC3339Nano t), None))"

section \<open>The package params\<close>

text \<open>
  Every method with a pointer receiver that writes to it takes the instance and returns
  the instance as the call leaves it, next to the error (\<open>None\<close> for \<open>nil\<close>).
\<close>

subsection \<open>Bool (bool.go)\<close>

record Bool =
  bool_value :: bool
  bool_present :: bool

definition Bool_UnmarshalJSON :: "Bool \<Rightarrow> string \<Rightarrow> error option \<times> Bool" where
  "Bool_UnmarshalJSON b data =
     (let b1 = b\<lparr>bool_present := False\<rparr>
      in if length data = 0 \<or> data = ''null'' then (None, b1\<lparr>bool_value := False\<rparr>)
         else
           let str = strings_ToLower (strings_Trim data [quote_ch])
           in if str = ''true'' then (None, b1\<lparr>bool_value := True, bool_present := True\<rparr>)
              else if str = ''false'' then
                (None, b1\<lparr>bool_value := False, bool_present := True\<rparr>)
              else (Some (ErrorString (''invalid boolean format: '' @ data)), b1))"

definition Bool_UnmarshalText :: "Bool \<Rightarrow> string \<Rightarrow> error option \<times> Bool" where
  "Bool_UnmarshalText b text = Bool_UnmarshalJSON b text"

definition Bool_UnmarshalParam :: "Bool \<Rightarrow> string \<Rightarrow> error option \<times> Bool" where
  "Bool_UnmarshalParam b param = Bool_UnmarshalJSON b param"

definition Bool_Set :: "Bool \<Rightarrow> bool \<Rightarrow> Bool" where
  "Bool_Set b v = b\<lparr>bool_value := v, bool_present := True\<rparr>"

definition Bool_Value :: "Bool \<Rightarrow> bool" where
  "Bool_Value b = (if \<not> bool_present b then False else bool_value b)"

definition Bool_Present :: "Bool \<Rightarrow> bool" where
  "Bool_Present b = bool_present b"

definition Bool_MarshalJSON :: "Bool \<Rightarrow> string \<times> error option" where
  "Bool_MarshalJSON b =
     (if \<not> bool_present b then (''null'', None)
      else if bool_value b then (''true'', None)
      else (''false'', None))"

subsection \<open>Int (int.go)\<close>

text \<open>The Go type \<open>int\<close> has 64 bits on the platforms the specification is about, and
  the conversion \<open>int(vv)\<close> of an \<open>int64\<close> keeps the value. The struct \<open>Int\<close> is the
  record \<open>Int_t\<close>, since \<open>Int\<close> is the intersection of sets in HOL. The decoder that
  \<open>UnmarshalJSON\<close> builds with \<open>json.NewDecoder\<close> is never read from; the variable
  \<open>v\<close> that \<open>json.Unmarshal\<close> fills starts as the empty \<open>json.Number\<close>.\<close>

record Int_t =
  int_Value :: "64 word"
  int_Present :: bool

definition Int_UnmarshalJSON :: "Int_t \<Rightarrow> string \<Rightarrow> error option \<times> Int_t" where
  "Int_UnmarshalJSON i data =
     (if length data = 0 \<or> data = ''null'' then
        (None, i\<lparr>int_Value := 0, int_Present := False\<rparr>)
      else
        (case json_Unmarshal_Number data [] of
           Inl err \<Rightarrow> (Some err, i\<lparr>int_Value := 0, int_Present := False\<rparr>)
         | Inr v \<Rightarrow>
             (case Number_Int64 v of
                Inl err \<Rightarrow> (Some err, i\<lparr>int_Value := 0, int_Present := False\<rparr>)
              | Inr vv \<Rightarrow> (None, i\<lparr>int_Value := vv, int_Present := True\<rparr>))))"

definition Int_Set :: "Int_t \<Rightarrow> 64 word \<Rightarrow> Int_t" where
  "Int_Set i v = i\<lparr>int_Value := v, int_Present := True\<rparr>"

definition Int_Get :: "Int_t \<Rightarrow> 64 word" where
  "Int_Get i = (if \<not> int_Present i then 0 else int_Value i)"

definition Int_MarshalJSON :: "Int_t \<Rightarrow> string \<times> error option" where
  "Int_MarshalJSON i = (fmt_d (sint (Int_Get i)), None)"

subsection \<open>String (string.go)\<close>

record String =
  string_value :: string
  string_present :: bool

definition String_UnmarshalJSON :: "String \<Rightarrow> string \<Rightarrow> error option \<times> String" where
  "String_UnmarshalJSON s data =
     (if length data = 0 \<or> data = ''null'' then
        (None, s\<lparr>string_value := [], string_present := False\<rparr>)
      else
        (case json_Unmarshal_string data (string_value s) of
           Inl err \<Rightarrow> (Some err, s\<lparr>string_value := [], string_present := False\<rparr>)
         | Inr v \<Rightarrow> (None, s\<lparr>string_value := v, string_present := True\<rparr>)))"

definition String_Set :: "String \<Rightarrow> string \<Rightarrow> String" where
  "String_Set s v = s\<lparr>string_value := v, string_present := True\<rparr>"

definition String_Present :: "String \<Rightarrow> bool" where
  "String_Present s = string_present s"

definition String_Value :: "String \<Rightarrow> string" where
  "String_Value s = (if \<not> string_present s then [] else string_value s)"

definition String_MarshalJSON :: "String \<Rightarrow> string \<times> error option" where
  "String_MarshalJSON s = json_Marshal_string (String_Value s)"

subsection \<open>Time (time.go)\<close>

text \<open>The four layouts of \<open>timeLayouts\<close>: \<open>time.RFC3339\<close>,
  \<open>2006-01-02T15:04:05 MST\<close>, \<open>2006-01-02 15:04:05\<close> and \<open>2006-01-02T15:04:05\<close>.\<close>

definition layout_MST :: layout where
  "layout_MST =
     [([], stdLongYear), (''-'', stdZeroMonth), (''-'', stdZeroDay), (''T'', stdHour),
      ('':'', stdZeroMinute), ('':'', stdZeroSecond), ('' '', stdTZ)]"

definition layout_space :: layout where
  "layout_space =
     [([], stdLongYear), (''-'', stdZeroMonth), (''-'', stdZeroDay), ('' '', stdHour),
      ('':'', stdZeroMinute), ('':'', stdZeroSecond)]"

definition layout_T :: layout where
  "layout_T =
     [([], stdLongYear), (''-'', stdZeroMonth), (''-'', stdZeroDay), (''T'', stdHour),
      ('':'', stdZeroMinute), ('':'', stdZeroSecond)]"

definition timeLayouts :: "layout list" where
  "timeLayouts = [RFC3339, layout_MST, layout_space, layout_T]"

record Time =
  time_value :: time_Time
  time_present :: bool

text \<open>The \<open>for\<close> loop of \<open>UnmarshalJSON\<close> over the layouts that are still to be
  tried, and the \<open>return\<close> after it.\<close>

fun Time_UnmarshalJSON_loop :: "zones \<Rightarrow> layout list \<Rightarrow> Time \<Rightarrow> string \<Rightarrow> error option \<times> Time"
  where
  "Time_UnmarshalJSON_loop zs [] dst data =
     (Some (ErrorString (''invalid time format: '' @ data)), dst)"
| "Time_UnmarshalJSON_loop zs (l # ls) dst data =
     (case time_Parse zs l (strings_Trim data [quote_ch]) of
        Inr t \<Rightarrow> (None, dst\<lparr>time_value := t\<rparr>)
      | Inl err \<Rightarrow> Time_UnmarshalJSON_loop zs ls dst data)"

definition Time_UnmarshalJSON :: "zones \<Rightarrow> Time \<Rightarrow> string \<Rightarrow> error option \<times> Time" where
  "Time_UnmarshalJSON zs dst data =
     (let dst1 = dst\<lparr>time_value := time_zero\<rparr>
      in if length data = 0 \<or> data = ''null'' then (None, dst1\<lparr>time_present := False\<rparr>)
         else if data = [quote_ch, quote_ch] then (None, dst1\<lparr>time_present := True\<rparr>)
         else Time_UnmarshalJSON_loop zs timeLayouts (dst1\<lparr>time_present := True\<rparr>) data)"

definition Time_UnmarshalText :: "zones \<Rightarrow> Time \<Rightarrow> string \<Rightarrow> error option \<times> Time" where
  "Time_UnmarshalText zs dst text = Time_UnmarshalJSON zs dst text"

definition Time_UnmarshalParam :: "zones \<Rightarrow> Time \<Rightarrow> string \<Rightarrow> error option \<times> Time" where
  "Time_UnmarshalParam zs dst param = Time_UnmarshalJSON zs dst param"

definition Time_MarshalJSON :: "Time \<Rightarrow> string \<times> error option" where
  "Time_MarshalJSON dst =
     (if \<not> time_present dst then (''null'', None) else time_MarshalJSON (time_value dst))"

definition Time_Set :: "Time \<Rightarrow> time_Time \<Rightarrow> Time" where
  "Time_Set dst v = dst\<lparr>time_value := v, time_present := True\<rparr>"

definition Time_Present :: "Time \<Rightarrow> bool" where
  "Time_Present dst = time_present dst"

definition Time_Value :: "Time \<Rightarrow> time_Time" where
  "Time_Value dst = (if \<not> time_present dst then time_zero else time_value dst)"

section \<open>Predicates of the statements\<close>

text \<open>
  A base-10 integer literal: an optional minus sign and one or more decimal digits.
\<close>

definition integer_literal :: "string \<Rightarrow> bool" where
  "integer_literal s =
     (s \<noteq> [] \<and> (let ds = (if hd s = CHR ''-'' then tl s else s)
                in ds \<noteq> [] \<and> list_all isDigit ds))"

text \<open>The characters that occur in a JSON number, and the ASCII characters that a
  JSON string literal holds as they are.\<close>

definition number_char :: "char \<Rightarrow> bool" where
  "number_char c = (isDigit c \<or> c \<in> set ''+-.eE'')"

definition plain_char :: "char \<Rightarrow> bool" where
  "plain_char c = ((of_char c :: nat) \<ge> 0x20 \<and> (of_char c :: nat) < 0x80
     \<and> c \<noteq> quote_ch \<and> c \<noteq> backslash_ch)"

text \<open>The decimal digits of \<open>n\<close> in \<open>m\<close> places, most significant first.\<close>

definition digits_of :: "nat \<Rightarrow> nat \<Rightarrow> string" where
  "digits_of m n = map (\<lambda>k. digit_char (n div 10 ^ k mod 10)) (rev [0..<m])"

text \<open>
  The fields of a \<open>time.Time\<close> are a date of the calendar and a time of the day: every
  Go time reads as such. \<open>rfc3339_time\<close> is a time that the wire format RFC 3339 can
  carry: a year of four digits and a zone offset of whole minutes below 24 hours.
  \<open>offset_minutes\<close> is an offset cut to whole minutes, as the format writes it.
\<close>

definition time_wf :: "time_Time \<Rightarrow> bool" where
  "time_wf t =
     (1 \<le> tm_month t \<and> tm_month t \<le> 12
      \<and> 1 \<le> tm_day t \<and> tm_day t \<le> daysIn (tm_month t) (tm_year t)
      \<and> tm_hour t < 24 \<and> tm_min t < 60 \<and> tm_sec t < 60 \<and> tm_nsec t < 10 ^ 9)"

definition offset_minutes :: "int \<Rightarrow> int" where
  "offset_minutes off =
     (if off \<le> - 60 then - int (zone_minutes off * 60) else int (zone_minutes off * 60))"

definition rfc3339_time :: "time_Time \<Rightarrow> bool" where
  "rfc3339_time t =
     (time_wf t \<and> 0 \<le> tm_year t \<and> tm_year t \<le> 9999
      \<and> tm_offset t mod 60 = 0 \<and> \<bar>tm_offset t\<bar> < 86400)"

text \<open>The value of a run of digits read after the number \<open>n\<close>: the accumulator of the
  scan of \<open>ParseUint\<close> when it never overflows.\<close>

definition dec_acc :: "nat \<Rightarrow> string \<Rightarrow> nat" where
  "dec_acc n ds = foldl (\<lambda>n c. 10 * n + digit_val c) n ds"

section \<open>Evaluation and the loop over the layouts\<close>

text \<open>The definitions that the simplifier unfolds to run the model on a concrete input.\<close>

lemmas time_eval = timeLayouts_def RFC3339_def layout_MST_def layout_space_def
  layout_T_def time_Parse_def parse_std_def parse_init_def getnum_def isDigit_def digit_val_def
  dec_val_def strings_Trim_def quote_ch_def quoted_def commaOrPeriod_def parseNanoseconds_def
  cutspace_def daysIn_def isLeap_def time_zero_def utc_host_def Let_def parseTimeZone_def
  parseGMT_def parseSignedOffset_def leadingInt_def time_atoi_def upper_letter_def add_hours_def
  next_day_def prev_day_def

lemmas json_eval = json_Unmarshal_Number_def json_Unmarshal_string_def json_trim_def
  json_isSpace_def isValidNumber_def isValidNumber_frac_def isValidNumber_exp_def isDigit_def
  json_unquote_def unquote_body.simps quote_ch_def backslash_ch_def simple_escape_def getu4_def
  hex_val_def quoted_def Number_Int64_def strconv_ParseInt_def strconv_ParseUint_def
  maxUint64_def dec_val_def digit_val_def

lemmas bool_eval = Bool_UnmarshalJSON_def strings_Trim_def strings_ToLower_def toLower_byte_def
  quote_ch_def quoted_def Let_def

lemmas number_eval = isValidNumber_def isValidNumber_frac_def isValidNumber_exp_def isDigit_def
  integer_literal_def

lemmas utf8_eval = utf8_Valid.simps utf8_DecodeRune_def utf8_first_def utf8_cont_def RuneError_def

text \<open>The loop returns at the first layout that parses, and fails with the instance
  untouched when none does.\<close>

lemma Time_UnmarshalJSON_loop_error:
  "fst (Time_UnmarshalJSON_loop zs ls dst data) \<noteq> None \<Longrightarrow>
     Time_UnmarshalJSON_loop zs ls dst data
       = (Some (ErrorString (''invalid time format: '' @ data)), dst)"
  by (induction ls) (auto split: sum.splits)

lemma Time_UnmarshalJSON_loop_first:
  "i < length ls \<Longrightarrow> time_Parse zs (ls ! i) (strings_Trim data [quote_ch]) = Inr t \<Longrightarrow>
   (\<forall>j<i. \<exists>e. time_Parse zs (ls ! j) (strings_Trim data [quote_ch]) = Inl e) \<Longrightarrow>
   Time_UnmarshalJSON_loop zs ls dst data = (None, dst\<lparr>time_value := t\<rparr>)"
proof (induction ls arbitrary: i)
  case Nil
  then show ?case by simp
next
  case (Cons l ls)
  show ?case
  proof (cases i)
    case 0
    with Cons.prems show ?thesis by simp
  next
    case (Suc k)
    from Cons.prems(3) Suc obtain e where e: "time_Parse zs l (strings_Trim data [quote_ch]) = Inl e"
      by fastforce
    have "Time_UnmarshalJSON_loop zs ls dst data = (None, dst\<lparr>time_value := t\<rparr>)"
    proof (rule Cons.IH [of k])
      show "k < length ls" using Cons.prems(1) Suc by simp
      show "time_Parse zs (ls ! k) (strings_Trim data [quote_ch]) = Inr t"
        using Cons.prems(2) Suc by simp
      show "\<forall>j<k. \<exists>e. time_Parse zs (ls ! j) (strings_Trim data [quote_ch]) = Inl e"
      proof (intro allI impI)
        fix j assume "j < k"
        then have "Suc j < i" using Suc by simp
        with Cons.prems(3) have "\<exists>e. time_Parse zs ((l # ls) ! Suc j) (strings_Trim data [quote_ch]) = Inl e"
          by blast
        then show "\<exists>e. time_Parse zs (ls ! j) (strings_Trim data [quote_ch]) = Inl e" by simp
      qed
    qed
    with e show ?thesis by simp
  qed
qed

lemma Time_UnmarshalJSON_loop_none:
  "(\<forall>i<length ls. \<exists>e. time_Parse zs (ls ! i) (strings_Trim data [quote_ch]) = Inl e) \<Longrightarrow>
   Time_UnmarshalJSON_loop zs ls dst data
     = (Some (ErrorString (''invalid time format: '' @ data)), dst)"
proof (induction ls)
  case Nil
  then show ?case by simp
next
  case (Cons l ls)
  from Cons.prems have "\<exists>e. time_Parse zs ((l # ls) ! 0) (strings_Trim data [quote_ch]) = Inl e"
    by blast
  then obtain e where e: "time_Parse zs l (strings_Trim data [quote_ch]) = Inl e" by auto
  have "\<forall>i<length ls. \<exists>e. time_Parse zs (ls ! i) (strings_Trim data [quote_ch]) = Inl e"
  proof (intro allI impI)
    fix i assume "i < length ls"
    then have "Suc i < length (l # ls)" by simp
    with Cons.prems have "\<exists>e. time_Parse zs ((l # ls) ! Suc i) (strings_Trim data [quote_ch]) = Inl e"
      by blast
    then show "\<exists>e. time_Parse zs (ls ! i) (strings_Trim data [quote_ch]) = Inl e" by simp
  qed
  with Cons.IH e show ?case by simp
qed

lemma String_UnmarshalJSON_error:
  "fst (String_UnmarshalJSON s data) \<noteq> None \<Longrightarrow>
   snd (String_UnmarshalJSON s data) = \<lparr>string_value = [], string_present = False\<rparr>"
  by (auto simp: String_UnmarshalJSON_def split: sum.splits if_splits)

lemma Int_UnmarshalJSON_error:
  "fst (Int_UnmarshalJSON i data) \<noteq> None \<Longrightarrow>
   snd (Int_UnmarshalJSON i data) = \<lparr>int_Value = 0, int_Present = False\<rparr>"
  by (auto simp: Int_UnmarshalJSON_def split: sum.splits if_splits)

lemma Bool_UnmarshalJSON_error:
  "fst (Bool_UnmarshalJSON b data) \<noteq> None \<Longrightarrow>
   \<not> Bool_Present (snd (Bool_UnmarshalJSON b data))
   \<and> Bool_Value (snd (Bool_UnmarshalJSON b data)) = False"
  by (auto simp: Bool_UnmarshalJSON_def Bool_Present_def Bool_Value_def Let_def split: if_splits)

lemma Time_fields:
  "dst\<lparr>time_value := v, time_present := p\<rparr> = \<lparr>time_value = v, time_present = p\<rparr>"
  by (cases dst) simp

lemma Time_UnmarshalJSON_error:
  assumes "fst (Time_UnmarshalJSON zs dst data) \<noteq> None"
  shows "Time_UnmarshalJSON zs dst data
     = (Some (ErrorString (''invalid time format: '' @ data)),
        \<lparr>time_value = time_zero, time_present = True\<rparr>)"
proof -
  let ?d = "\<lparr>time_value = time_zero, time_present = True\<rparr>"
  from assms have ne: "data \<noteq> []" "data \<noteq> ''null''" "data \<noteq> [quote_ch, quote_ch]"
    by (auto simp: Time_UnmarshalJSON_def Let_def split: if_splits)
  then have eq: "Time_UnmarshalJSON zs dst data = Time_UnmarshalJSON_loop zs timeLayouts ?d data"
    by (simp add: Time_UnmarshalJSON_def Let_def Time_fields)
  with assms have "fst (Time_UnmarshalJSON_loop zs timeLayouts ?d data) \<noteq> None" by simp
  then show ?thesis
    using Time_UnmarshalJSON_loop_error [of zs timeLayouts ?d data] eq by simp
qed

text \<open>
  The layout with \<open>MST\<close> on a host whose \<open>Local\<close> is UTC. The input of the package's
  test table with the zone \<open>UTC\<close> decodes to the time that the table expects. An
  abbreviation that the host does not know, such as \<open>PST\<close>, is accepted for its shape
  and read at the offset 0; \<open>GMT+3\<close> is read as the instant of the parsed clock in UTC,
  three hours later on the clock of its zone. Lower-case letters are no abbreviation.
\<close>

lemma Time_UnmarshalJSON_zone_examples:
  "Time_UnmarshalJSON utc_host \<lparr>time_value = time_zero, time_present = False\<rparr>
     (quoted ''2023-10-05T14:48:00 UTC'')
   = (None, \<lparr>time_value = \<lparr>tm_year = 2023, tm_month = 10, tm_day = 5, tm_hour = 14,
                             tm_min = 48, tm_sec = 0, tm_nsec = 0, tm_offset = 0\<rparr>,
             time_present = True\<rparr>)"
  "Time_UnmarshalJSON utc_host \<lparr>time_value = time_zero, time_present = False\<rparr>
     (quoted ''2025-09-09T13:20:25 PST'')
   = (None, \<lparr>time_value = \<lparr>tm_year = 2025, tm_month = 9, tm_day = 9, tm_hour = 13,
                             tm_min = 20, tm_sec = 25, tm_nsec = 0, tm_offset = 0\<rparr>,
             time_present = True\<rparr>)"
  "Time_UnmarshalJSON utc_host \<lparr>time_value = time_zero, time_present = False\<rparr>
     (quoted ''2025-09-09T23:20:25 GMT+3'')
   = (None, \<lparr>time_value = \<lparr>tm_year = 2025, tm_month = 9, tm_day = 10, tm_hour = 2,
                             tm_min = 20, tm_sec = 25, tm_nsec = 0, tm_offset = 10800\<rparr>,
             time_present = True\<rparr>)"
  "Time_UnmarshalJSON utc_host \<lparr>time_value = time_zero, time_present = False\<rparr>
     (quoted ''2025-09-09T13:20:25 Pst'')
   = (Some (ErrorString (''invalid time format: '' @ quoted ''2025-09-09T13:20:25 Pst'')),
      \<lparr>time_value = time_zero, time_present = True\<rparr>)"
  by (simp_all add: Time_UnmarshalJSON_def time_eval)


section \<open>Decimal digits and number tokens\<close>

lemma digit_cases: "d < 10 \<Longrightarrow> d = 0 \<or> d = 1 \<or> d = 2 \<or> d = 3 \<or> d = 4 \<or> d = 5 \<or> d = 6 \<or> d = 7 \<or> d = 8 \<or> d = (9::nat)"
  by arith

lemma isDigit_digit_char: "d < 10 \<Longrightarrow> isDigit (digit_char d)"
  using digit_cases [of d] by (auto simp: isDigit_def digit_char_def)

lemma digit_val_digit_char: "d < 10 \<Longrightarrow> digit_val (digit_char d) = d"
  using digit_cases [of d] by (auto simp: digit_val_def digit_char_def)

lemma digit_char_zero_iff: "d < 10 \<Longrightarrow> digit_char d = CHR ''0'' \<longleftrightarrow> d = 0"
  using digit_cases [of d] by (auto simp: digit_char_def)

lemma isDigit_iff: "isDigit c \<longleftrightarrow> (\<exists>d<10. c = digit_char d)"
proof
  assume "isDigit c"
  then have "c = digit_char 0 \<or> c = digit_char 1 \<or> c = digit_char 2 \<or> c = digit_char 3
    \<or> c = digit_char 4 \<or> c = digit_char 5 \<or> c = digit_char 6 \<or> c = digit_char 7
    \<or> c = digit_char 8 \<or> c = digit_char 9"
    by (auto simp: isDigit_def digit_char_def)
  then show "\<exists>d<10. c = digit_char d" by (elim disjE) (rule exI, rule conjI, auto)+
next
  assume "\<exists>d<10. c = digit_char d"
  then show "isDigit c" using isDigit_digit_char by auto
qed

lemma isDigit_not_special:
  "isDigit c \<Longrightarrow> c \<noteq> CHR ''-'' \<and> c \<noteq> CHR ''+'' \<and> c \<noteq> CHR ''.'' \<and> c \<noteq> CHR ''e'' \<and> c \<noteq> CHR ''E''
     \<and> c \<noteq> CHR ''n'' \<and> c \<noteq> quote_ch \<and> c \<noteq> backslash_ch \<and> \<not> json_isSpace c"
  by (auto simp: isDigit_def quote_ch_def backslash_ch_def json_isSpace_def)

lemma dec_nat_digits: "list_all isDigit (dec_nat n)"
proof (induction n rule: dec_nat.induct)
  case (1 n)
  show ?case
  proof (cases "n < 10")
    case True
    then show ?thesis by (simp add: dec_nat.simps [of n] isDigit_digit_char)
  next
    case False
    with 1 show ?thesis by (simp add: dec_nat.simps [of n] isDigit_digit_char)
  qed
qed

lemma dec_nat_nonempty: "dec_nat n \<noteq> []"
  by (subst dec_nat.simps) simp

lemma dec_val_snoc: "dec_val (ds @ [c]) = 10 * dec_val ds + digit_val c"
  by (simp add: dec_val_def)

lemma dec_val_dec_nat: "dec_val (dec_nat n) = n"
proof (induction n rule: dec_nat.induct)
  case (1 n)
  show ?case
  proof (cases "n < 10")
    case True
    then show ?thesis by (simp add: dec_nat.simps [of n] dec_val_def digit_val_digit_char)
  next
    case False
    with 1 have "dec_val (dec_nat (n div 10)) = n div 10" by simp
    with False show ?thesis
      by (simp add: dec_nat.simps [of n] dec_val_snoc digit_val_digit_char)
  qed
qed

lemma hd_dec_nat_zero: "hd (dec_nat n) = CHR ''0'' \<Longrightarrow> n = 0"
proof (induction n rule: dec_nat.induct)
  case (1 n)
  show ?case
  proof (cases "n < 10")
    case True
    with 1(2) show ?thesis by (simp add: dec_nat.simps [of n] digit_char_zero_iff)
  next
    case False
    with 1(2) have "hd (dec_nat (n div 10)) = CHR ''0''"
      by (simp add: dec_nat.simps [of n] dec_nat_nonempty)
    with 1(1) False have "n div 10 = 0" by simp
    with False show ?thesis by simp
  qed
qed

lemma dec_nat_0: "dec_nat 0 = ''0''"
  by (simp add: dec_nat.simps digit_char_def)

lemma dropWhile_isDigit_all: "list_all isDigit ds \<Longrightarrow> dropWhile isDigit ds = []"
  by (induction ds) auto

lemma isValidNumber_digits:
  assumes "list_all isDigit ds" "ds \<noteq> []" "hd ds = CHR ''0'' \<longrightarrow> ds = ''0''"
  shows "isValidNumber ds" "isValidNumber (CHR ''-'' # ds)"
proof -
  obtain c cs where ds: "ds = c # cs" using assms(2) by (cases ds) auto
  have c: "isDigit c" and cs: "list_all isDigit cs" using assms(1) ds by auto
  have c09: "c = CHR ''0'' \<or> c \<in> set ''123456789''" using c by (auto simp: isDigit_def)
  have z: "c = CHR ''0'' \<Longrightarrow> cs = []" using assms(3) ds by simp
  have e: "isValidNumber_frac []" by (simp add: isValidNumber_frac_def isValidNumber_exp_def)
  have nm: "c \<noteq> CHR ''-''" using c isDigit_not_special by blast
  show "isValidNumber ds"
    using c09 z e nm cs by (auto simp: isValidNumber_def ds dropWhile_isDigit_all)
  show "isValidNumber (CHR ''-'' # ds)"
    using c09 z e nm cs by (auto simp: isValidNumber_def ds dropWhile_isDigit_all)
qed

lemma isValidNumber_fmt_d: "isValidNumber (fmt_d i)"
proof -
  have *: "isValidNumber (dec_nat n) \<and> isValidNumber (CHR ''-'' # dec_nat n)" for n
  proof -
    have "hd (dec_nat n) = CHR ''0'' \<longrightarrow> dec_nat n = ''0''"
      using hd_dec_nat_zero [of n] dec_nat_0 by auto
    then show ?thesis
      using isValidNumber_digits [OF dec_nat_digits dec_nat_nonempty] by blast
  qed
  show ?thesis using * by (simp add: fmt_d_def)
qed

lemma number_char_plain: "number_char c \<Longrightarrow> plain_char c \<and> \<not> json_isSpace c"
  by (auto simp: number_char_def plain_char_def isDigit_def json_isSpace_def quote_ch_def
      backslash_ch_def)

lemma digits_number_chars: "list_all isDigit ds \<Longrightarrow> list_all number_char ds"
  by (induction ds) (auto simp: number_char_def)

lemma dropWhile_number_chars:
  "list_all number_char (dropWhile isDigit s) \<Longrightarrow> list_all number_char s"
  by (induction s) (auto simp: number_char_def split: if_splits)

lemma dropWhile_nil_digits: "dropWhile isDigit s = [] \<Longrightarrow> list_all isDigit s"
  by (induction s) (auto split: if_splits)

lemma isValidNumber_exp_chars: "isValidNumber_exp s \<Longrightarrow> list_all number_char s"
proof -
  assume v: "isValidNumber_exp s"
  show ?thesis
  proof (cases "length s \<ge> 2 \<and> (hd s = CHR ''e'' \<or> hd s = CHR ''E'')")
    case False
    with v show ?thesis by (simp add: isValidNumber_exp_def)
  next
    case True
    then obtain e s1 where s: "s = e # s1" and e: "e = CHR ''e'' \<or> e = CHR ''E''" and s1: "s1 \<noteq> []"
      by (cases s) (auto simp: Suc_le_eq)
    obtain c s2 where s1c: "s1 = c # s2" using s1 by (cases s1) auto
    have ec: "number_char e" using e by (auto simp: number_char_def)
    show ?thesis
    proof (cases "c = CHR ''+'' \<or> c = CHR ''-''")
      case True
      with v s s1c e have "dropWhile isDigit s2 = []"
        by (auto simp: isValidNumber_exp_def Let_def split: if_splits)
      then have "list_all number_char s2"
        using dropWhile_nil_digits digits_number_chars by blast
      moreover have "number_char c" using True by (auto simp: number_char_def)
      ultimately show ?thesis using s s1c ec by simp
    next
      case False
      with v s s1c e have "dropWhile isDigit s1 = []"
        by (auto simp: isValidNumber_exp_def Let_def split: if_splits)
      then have "list_all number_char s1"
        using dropWhile_nil_digits digits_number_chars by blast
      then show ?thesis using s ec by simp
    qed
  qed
qed

lemma isValidNumber_frac_chars: "isValidNumber_frac s \<Longrightarrow> list_all number_char s"
proof -
  assume v: "isValidNumber_frac s"
  show ?thesis
  proof (cases "length s \<ge> 2 \<and> hd s = CHR ''.'' \<and> isDigit (s ! 1)")
    case False
    with v show ?thesis by (simp add: isValidNumber_frac_def isValidNumber_exp_chars)
  next
    case True
    then obtain d rest where s: "s = CHR ''.'' # d # rest" and d: "isDigit d"
      by (cases s; cases "tl s") auto
    from v True s have "isValidNumber_exp (dropWhile isDigit rest)"
      by (simp add: isValidNumber_frac_def)
    then have "list_all number_char rest"
      using isValidNumber_exp_chars dropWhile_number_chars by blast
    with s d show ?thesis by (simp add: number_char_def)
  qed
qed

lemma isValidNumber_chars: "isValidNumber s \<Longrightarrow> list_all number_char s"
proof -
  assume v: "isValidNumber s"
  then have ne: "s \<noteq> []" by (auto simp: isValidNumber_def)
  define t where "t = (if hd s = CHR ''-'' then tl s else s)"
  have st: "list_all number_char t \<Longrightarrow> list_all number_char s"
    using ne by (cases s) (auto simp: t_def number_char_def split: if_splits)
  from v ne have tne: "t \<noteq> []" by (auto simp: isValidNumber_def t_def Let_def split: if_splits)
  then obtain c cs where t: "t = c # cs" by (cases t) auto
  from v ne tne have cases:
    "(c = CHR ''0'' \<and> isValidNumber_frac cs)
     \<or> (c \<in> set ''123456789'' \<and> isValidNumber_frac (dropWhile isDigit cs))"
    unfolding isValidNumber_def t_def [symmetric] Let_def using t
    by (auto split: if_splits)
  then have "number_char c \<and> list_all number_char cs"
    using isValidNumber_frac_chars dropWhile_number_chars
    by (auto simp: number_char_def isDigit_def)
  with t st show ?thesis by simp
qed

lemma json_trim_id:
  assumes "s \<noteq> []" "\<not> json_isSpace (hd s)" "\<not> json_isSpace (last s)"
  shows "json_trim s = s"
proof -
  have 1: "dropWhile json_isSpace s = s" using assms(1,2) by (cases s) auto
  have "rev s \<noteq> []" "\<not> json_isSpace (hd (rev s))"
    using assms(1,3) by (simp_all add: hd_rev)
  then have 2: "dropWhile json_isSpace (rev s) = rev s" by (cases "rev s") auto
  show ?thesis by (simp add: json_trim_def 1 2)
qed

lemma json_trim_no_space: "s \<noteq> [] \<Longrightarrow> list_all (\<lambda>c. \<not> json_isSpace c) s \<Longrightarrow> json_trim s = s"
proof (rule json_trim_id)
  assume ne: "s \<noteq> []" and all: "list_all (\<lambda>c. \<not> json_isSpace c) s"
  show "s \<noteq> []" by (rule ne)
  have "hd s \<in> set s" "last s \<in> set s" using ne by simp_all
  with all show "\<not> json_isSpace (hd s)" "\<not> json_isSpace (last s)"
    by (auto simp: list_all_iff)
qed

lemma json_trim_number: "isValidNumber s \<Longrightarrow> json_trim s = s"
proof -
  assume v: "isValidNumber s"
  then have "s \<noteq> []" by (auto simp: isValidNumber_def)
  moreover have "list_all (\<lambda>c. \<not> json_isSpace c) s"
    using isValidNumber_chars [OF v] number_char_plain by (auto simp: list_all_iff)
  ultimately show ?thesis by (rule json_trim_no_space)
qed

lemma json_trim_quoted: "json_trim (quoted s) = quoted s"
  by (rule json_trim_id) (simp_all add: quoted_def quote_ch_def json_isSpace_def)

lemma unquote_body_plain: "list_all plain_char s \<Longrightarrow> unquote_body s = Some s"
proof (induction s)
  case Nil
  show ?case by (simp add: unquote_body.simps)
next
  case (Cons c s)
  then have "plain_char c" "unquote_body s = Some s" by simp_all
  then show ?case by (simp add: unquote_body.simps plain_char_def)
qed

lemma json_unquote_quoted: "json_unquote (quoted s) = unquote_body s"
  by (simp add: json_unquote_def quoted_def)

lemma isValidNumber_not_null: "isValidNumber s \<Longrightarrow> s \<noteq> ''null''"
  by (auto simp: isValidNumber_def)

lemma not_isValidNumber_quoted: "\<not> isValidNumber (quoted s)"
  by (simp add: isValidNumber_def quoted_def quote_ch_def)

lemma quoted_not_null: "quoted s \<noteq> ''null''" "quoted s \<noteq> []"
  by (simp_all add: quoted_def quote_ch_def)

lemma json_Unmarshal_Number_bare:
  "isValidNumber s \<Longrightarrow> json_Unmarshal_Number s cur = Inr s"
  by (simp add: json_Unmarshal_Number_def json_trim_number isValidNumber_not_null)

lemma json_Unmarshal_Number_quoted:
  assumes "isValidNumber s"
  shows "json_Unmarshal_Number (quoted s) cur = Inr s"
proof -
  have "list_all plain_char s"
    using isValidNumber_chars [OF assms] number_char_plain by (auto simp: list_all_iff)
  then have "json_unquote (quoted s) = Some s"
    by (simp add: json_unquote_quoted unquote_body_plain)
  then show ?thesis
    using assms
    by (simp add: json_Unmarshal_Number_def json_trim_quoted quoted_not_null
        not_isValidNumber_quoted)
qed

text \<open>The scan of \<open>ParseUint\<close>: over digits it computes their value as long as that
  fits 64 bits; it stops at the first byte that is not a digit, unless the digits before
  it have overflowed already.\<close>

lemma dec_acc_simps [simp]:
  "dec_acc n [] = n" "dec_acc n (c # cs) = dec_acc (10 * n + digit_val c) cs"
  by (simp_all add: dec_acc_def)

lemma dec_val_acc: "dec_val ds = dec_acc 0 ds"
  by (simp add: dec_val_def dec_acc_def)

lemma dec_acc_ge: "n \<le> dec_acc n ds"
proof (induction ds arbitrary: n)
  case Nil
  show ?case by simp
next
  case (Cons c cs)
  have "n \<le> 10 * n + digit_val c" by simp
  also have "\<dots> \<le> dec_acc (10 * n + digit_val c) cs" by (rule Cons.IH)
  finally show ?case by simp
qed

lemma ParseUint_loop_digits:
  assumes "list_all isDigit p" "n \<le> maxUint64"
  shows "ParseUint_loop n p
     = (if dec_acc n p \<le> maxUint64 then Inr (dec_acc n p) else Inl ErrRange)"
  using assms
proof (induction p arbitrary: n)
  case Nil
  then show ?case by simp
next
  case (Cons c cs)
  let ?n1 = "10 * n + digit_val c"
  have c: "isDigit c" and cs: "list_all isDigit cs" using Cons.prems(1) by simp_all
  have ge: "?n1 \<le> dec_acc ?n1 cs" by (rule dec_acc_ge)
  show ?case
  proof (cases "n \<ge> maxUint64 div 10 + 1")
    case True
    then have "maxUint64 < ?n1" by (simp add: maxUint64_def)
    with ge have "\<not> dec_acc ?n1 cs \<le> maxUint64" by simp
    with True c show ?thesis by simp
  next
    case False
    show ?thesis
    proof (cases "?n1 > maxUint64")
      case True
      with ge have "\<not> dec_acc ?n1 cs \<le> maxUint64" by simp
      with True False c show ?thesis by (simp add: Let_def)
    next
      case ok: False
      then have "?n1 \<le> maxUint64" by simp
      from Cons.IH [OF cs this] False ok c show ?thesis by (simp add: Let_def)
    qed
  qed
qed

lemma ParseUint_loop_nondigit:
  assumes "list_all isDigit p" "\<not> isDigit c" "n \<le> maxUint64"
  shows "ParseUint_loop n (p @ c # r)
     = Inl (if dec_acc n p \<le> maxUint64 then ErrSyntax else ErrRange)"
  using assms
proof (induction p arbitrary: n)
  case Nil
  then show ?case by simp
next
  case (Cons d ds)
  let ?n1 = "10 * n + digit_val d"
  have d: "isDigit d" and ds: "list_all isDigit ds" using Cons.prems(1) by simp_all
  have ge: "?n1 \<le> dec_acc ?n1 ds" by (rule dec_acc_ge)
  show ?case
  proof (cases "n \<ge> maxUint64 div 10 + 1")
    case True
    then have "maxUint64 < ?n1" by (simp add: maxUint64_def)
    with ge have "\<not> dec_acc ?n1 ds \<le> maxUint64" by simp
    with True d show ?thesis by simp
  next
    case False
    show ?thesis
    proof (cases "?n1 > maxUint64")
      case True
      with ge have "\<not> dec_acc ?n1 ds \<le> maxUint64" by simp
      with True False d show ?thesis by (simp add: Let_def)
    next
      case ok: False
      then have "?n1 \<le> maxUint64" by simp
      from Cons.IH [OF ds Cons.prems(2) this] False ok d show ?thesis by (simp add: Let_def)
    qed
  qed
qed

text \<open>A number that is not an integer literal has a byte that is not a digit after its
  sign: \<open>ParseInt\<close> fails there with \<open>ErrSyntax\<close>, or before it with \<open>ErrRange\<close> when
  the digits that precede it are beyond 64 bits.\<close>

lemma strconv_ParseInt_not_integer:
  assumes "isValidNumber s" "\<not> integer_literal s"
  shows "strconv_ParseInt s
     = Inl (NumError s
         (if dec_val (takeWhile isDigit (if hd s = CHR ''-'' then tl s else s)) \<le> maxUint64
          then ErrSyntax else ErrRange))"
proof -
  from assms(1) have ne: "s \<noteq> []" and plus: "hd s \<noteq> CHR ''+''"
    by (auto simp: isValidNumber_def Let_def split: if_splits)
  define ds where "ds = (if hd s = CHR ''-'' then tl s else s)"
  from assms(1) ne have dne: "ds \<noteq> []"
    by (auto simp: isValidNumber_def ds_def Let_def split: if_splits)
  from assms(2) ne dne have nd: "\<not> list_all isDigit ds"
    by (auto simp: integer_literal_def ds_def Let_def)
  let ?p = "takeWhile isDigit ds" and ?q = "dropWhile isDigit ds"
  have qne: "?q \<noteq> []" using nd by (auto simp: list_all_iff dropWhile_eq_Nil_conv)
  then obtain c r where q: "?q = c # r" by (cases ?q) auto
  have c: "\<not> isDigit c" using hd_dropWhile [OF qne] q by simp
  have p: "list_all isDigit ?p" by (simp add: list_all_iff) (meson set_takeWhileD)
  have split: "ds = ?p @ c # r" using q by (metis takeWhile_dropWhile_id)
  have "ParseUint_loop 0 (?p @ c # r)
      = Inl (if dec_acc 0 ?p \<le> maxUint64 then ErrSyntax else ErrRange)"
    by (rule ParseUint_loop_nondigit [OF p c]) simp
  then have u: "strconv_ParseUint ds
      = Inl (if dec_val ?p \<le> maxUint64 then ErrSyntax else ErrRange)"
    using dne split by (simp add: strconv_ParseUint_def dec_val_acc)
  have strip: "(if hd s = CHR ''+'' \<or> hd s = CHR ''-'' then tl s else s) = ds"
    using plus by (simp add: ds_def)
  show ?thesis
    using ne by (simp add: strconv_ParseInt_def Let_def strip u ds_def [symmetric])
qed

lemma strconv_ParseUint_dec_nat:
  "n \<le> maxUint64 \<Longrightarrow> strconv_ParseUint (dec_nat n) = Inr n"
  using ParseUint_loop_digits [OF dec_nat_digits, of 0 n] dec_val_dec_nat [of n]
  by (simp add: strconv_ParseUint_def dec_nat_nonempty dec_val_acc)

lemma word_of_nat_neg:
  "x < 0 \<Longrightarrow> - (word_of_nat (nat (- x)) :: 64 word) = word_of_int x"
proof -
  assume "x < 0"
  then have "int (nat (- x)) = - x" by simp
  then have "(word_of_nat (nat (- x)) :: 64 word) = word_of_int (- x)"
    by (metis of_int_of_nat_eq)
  then show ?thesis by simp
qed

lemma word_of_nat_pos:
  "0 \<le> x \<Longrightarrow> (word_of_nat (nat x) :: 64 word) = word_of_int x"
  by (metis int_nat_eq of_int_of_nat_eq)

lemma strconv_ParseInt_fmt_d: "strconv_ParseInt (fmt_d (sint w)) = Inr (w :: 64 word)"
proof -
  let ?x = "sint w"
  have lo: "- (2 ^ 63) \<le> ?x" using sint_ge [of w] by simp
  have hi: "?x < 2 ^ 63" using sint_lt [of w] by simp
  have wb: "word_of_int ?x = w" by simp
  show ?thesis
  proof (cases "?x < 0")
    case True
    let ?n = "nat (- ?x)"
    have f: "fmt_d ?x = CHR ''-'' # dec_nat ?n" using True by (simp add: fmt_d_def)
    have bound: "\<not> ?n > 2 ^ 63" using lo by simp
    then have m: "?n \<le> maxUint64" by (simp add: maxUint64_def)
    have "strconv_ParseInt (CHR ''-'' # dec_nat ?n) = Inr (- word_of_nat ?n)"
      using bound by (simp add: strconv_ParseInt_def strconv_ParseUint_dec_nat [OF m])
    with f word_of_nat_neg [OF True] wb show ?thesis by simp
  next
    case False
    let ?n = "nat ?x"
    have f: "fmt_d ?x = dec_nat ?n" using False by (simp add: fmt_d_def)
    have d: "isDigit (hd (dec_nat ?n))"
      using dec_nat_digits [of ?n] dec_nat_nonempty [of ?n] by (cases "dec_nat ?n") auto
    then have sign: "hd (dec_nat ?n) \<noteq> CHR ''-''" "hd (dec_nat ?n) \<noteq> CHR ''+''"
      using isDigit_not_special by blast+
    have bound: "\<not> ?n \<ge> 2 ^ 63" using hi False by simp
    then have m: "?n \<le> maxUint64" by (simp add: maxUint64_def)
    have "strconv_ParseInt (dec_nat ?n) = Inr (word_of_nat ?n)"
      using bound sign
      by (simp add: strconv_ParseInt_def dec_nat_nonempty strconv_ParseUint_dec_nat [OF m])
    with f word_of_nat_pos [of ?x] False wb show ?thesis by simp
  qed
qed

text \<open>The two errors of \<open>ParseInt\<close> on a text that is not an integer literal, and the
  ends of the 64-bit range.\<close>

lemma strconv_ParseInt_examples:
  "strconv_ParseInt ''1.5'' = Inl (NumError ''1.5'' ErrSyntax)"
  "strconv_ParseInt ''99999999999999999999.5''
     = Inl (NumError ''99999999999999999999.5'' ErrRange)"
  "strconv_ParseInt ''-9223372036854775808'' = Inr (- 9223372036854775808)"
  "strconv_ParseInt ''9223372036854775807'' = Inr 9223372036854775807"
  "strconv_ParseInt ''9223372036854775808'' = Inl (NumError ''9223372036854775808'' ErrRange)"
  by (simp_all add: strconv_ParseInt_def strconv_ParseUint_def maxUint64_def isDigit_def
      digit_val_def Let_def)

lemma fmt_d_nonempty: "fmt_d i \<noteq> []"
  by (simp add: fmt_d_def dec_nat_nonempty)

lemma Int_UnmarshalJSON_number:
  assumes "isValidNumber s"
  shows "Int_UnmarshalJSON i s =
     (case strconv_ParseInt s of
        Inl err \<Rightarrow> (Some err, \<lparr>int_Value = 0, int_Present = False\<rparr>)
      | Inr vv \<Rightarrow> (None, \<lparr>int_Value = vv, int_Present = True\<rparr>))"
proof -
  have "s \<noteq> []" "s \<noteq> ''null''" using assms isValidNumber_not_null by (auto simp: isValidNumber_def)
  then show ?thesis
    using json_Unmarshal_Number_bare [OF assms, of "[]"]
    by (cases i) (simp add: Int_UnmarshalJSON_def Number_Int64_def split: sum.splits)
qed

lemma Int_UnmarshalJSON_quoted_number:
  assumes "isValidNumber s"
  shows "Int_UnmarshalJSON i (quoted s) =
     (case strconv_ParseInt s of
        Inl err \<Rightarrow> (Some err, \<lparr>int_Value = 0, int_Present = False\<rparr>)
      | Inr vv \<Rightarrow> (None, \<lparr>int_Value = vv, int_Present = True\<rparr>))"
  using json_Unmarshal_Number_quoted [OF assms, of "[]"] quoted_not_null [of s]
  by (cases i) (simp add: Int_UnmarshalJSON_def Number_Int64_def split: sum.splits)

section \<open>UTF-8 sequences\<close>

text \<open>A well-formed sequence is decoded from its own bytes alone, and encoding the
  rune gives the bytes back.\<close>

lemma mod_shift:
  fixes q :: nat
  shows "q < 32 \<Longrightarrow> (192 + q) mod 32 = q"
    and "q < 16 \<Longrightarrow> (224 + q) mod 16 = q"
    and "q < 8 \<Longrightarrow> (240 + q) mod 8 = q"
    and "q < 64 \<Longrightarrow> (128 + q) mod 64 = q"
proof -
  have 1: "192 + q = q + 32 * 6" "224 + q = q + 16 * 14" "240 + q = q + 8 * 30"
    "128 + q = q + 64 * 2" by simp_all
  show "q < 32 \<Longrightarrow> (192 + q) mod 32 = q" by (simp only: 1 mod_mult_self2) simp
  show "q < 16 \<Longrightarrow> (224 + q) mod 16 = q" by (simp only: 1 mod_mult_self2) simp
  show "q < 8 \<Longrightarrow> (240 + q) mod 8 = q" by (simp only: 1 mod_mult_self2) simp
  show "q < 64 \<Longrightarrow> (128 + q) mod 64 = q" by (simp only: 1 mod_mult_self2) simp
qed

lemma divmod2:
  fixes q r :: nat
  assumes "r < 64"
  shows "(q * 64 + r) div 64 = q" "(q * 64 + r) mod 64 = r"
  using assms by simp_all

lemma divmod3:
  fixes q r1 r2 :: nat
  assumes "r1 < 64" "r2 < 64"
  shows "(q * 4096 + r1 * 64 + r2) div 4096 = q"
    and "(q * 4096 + r1 * 64 + r2) div 64 mod 64 = r1"
    and "(q * 4096 + r1 * 64 + r2) mod 64 = r2"
proof -
  let ?c = "q * 4096 + r1 * 64 + r2"
  have e: "?c = (q * 64 + r1) * 64 + r2" by simp
  have d: "?c div 64 = q * 64 + r1" by (simp only: e divmod2(1) [OF assms(2)])
  show "?c mod 64 = r2" by (simp only: e divmod2(2) [OF assms(2)])
  show "?c div 64 mod 64 = r1" by (simp only: d divmod2(2) [OF assms(1)])
  have "?c div 4096 = ?c div 64 div 64" by (simp add: div_mult2_eq)
  then show "?c div 4096 = q" by (simp only: d divmod2(1) [OF assms(1)])
qed

lemma div64_3:
  fixes q r1 r2 :: nat
  assumes "r2 < 64"
  shows "(q * 4096 + r1 * 64 + r2) div 64 = q * 64 + r1"
proof -
  have e: "q * 4096 + r1 * 64 + r2 = (q * 64 + r1) * 64 + r2" by simp
  show ?thesis by (simp only: e divmod2(1) [OF assms])
qed

lemma divmod4:
  fixes q r1 r2 r3 :: nat
  assumes "r1 < 64" "r2 < 64" "r3 < 64"
  shows "(q * 262144 + r1 * 4096 + r2 * 64 + r3) div 262144 = q"
    and "(q * 262144 + r1 * 4096 + r2 * 64 + r3) div 4096 mod 64 = r1"
    and "(q * 262144 + r1 * 4096 + r2 * 64 + r3) div 64 mod 64 = r2"
    and "(q * 262144 + r1 * 4096 + r2 * 64 + r3) mod 64 = r3"
proof -
  let ?c = "q * 262144 + r1 * 4096 + r2 * 64 + r3"
  let ?d = "q * 4096 + r1 * 64 + r2"
  have e: "?c = ?d * 64 + r3" by simp
  have d: "?c div 64 = ?d" by (simp only: e divmod2(1) [OF assms(3)])
  show "?c mod 64 = r3" by (simp only: e divmod2(2) [OF assms(3)])
  show "?c div 64 mod 64 = r2" by (simp only: d divmod3(3) [OF assms(1,2)])
  have "?c div 4096 = ?c div 64 div 64" by (simp add: div_mult2_eq)
  then have d2: "?c div 4096 = q * 64 + r1"
    by (simp only: d div64_3 [OF assms(2)])
  show "?c div 4096 mod 64 = r1" by (simp only: d2 divmod2(2) [OF assms(1)])
  have "?c div 262144 = ?c div 4096 div 64" by (simp add: div_mult2_eq)
  then show "?c div 262144 = q" by (simp only: d2 divmod2(1) [OF assms(1)])
qed


lemma utf8_EncodeRune_2:
  fixes q r :: nat
  assumes "2 \<le> q" "q < 32" "r < 64"
  shows "utf8_EncodeRune (q * 64 + r) = [char_of (192 + q), char_of (128 + r)]"
proof -
  let ?c = "q * 64 + r"
  have 1: "\<not> ?c \<le> 0x7F" using assms by simp
  have 2: "?c \<le> 0x7FF" using assms by simp
  show ?thesis
    unfolding utf8_EncodeRune_def
    by (simp only: 1 2 if_True if_False divmod2 [OF assms(3)])
qed

lemma utf8_EncodeRune_3:
  fixes q r1 r2 :: nat
  assumes "q < 16" "r1 < 64" "r2 < 64" "q = 0 \<longrightarrow> 32 \<le> r1" "q = 13 \<longrightarrow> r1 < 32"
  shows "utf8_EncodeRune (q * 4096 + r1 * 64 + r2)
     = [char_of (224 + q), char_of (128 + r1), char_of (128 + r2)]"
proof -
  let ?c = "q * 4096 + r1 * 64 + r2"
  have 1: "\<not> ?c \<le> 0x7F" "\<not> ?c \<le> 0x7FF" using assms by auto
  have 2: "\<not> ?c > 0x10FFFF" using assms by simp
  have 3: "\<not> (0xD800 \<le> ?c \<and> ?c \<le> 0xDFFF)"
  proof -
    consider "q \<le> 12" | "q = 13" | "14 \<le> q" by linarith
    then show ?thesis
    proof cases
      case 1 then show ?thesis using assms by simp
    next
      case 2 then show ?thesis using assms by simp
    next
      case 3 then show ?thesis using assms by simp
    qed
  qed
  have 4: "?c \<le> 0xFFFF" using assms by simp
  show ?thesis
    unfolding utf8_EncodeRune_def
    by (simp only: 1 2 3 4 if_True if_False simp_thms divmod3 [OF assms(2,3)])
qed

lemma utf8_EncodeRune_4:
  fixes q r1 r2 r3 :: nat
  assumes "q \<le> 4" "r1 < 64" "r2 < 64" "r3 < 64" "q = 0 \<longrightarrow> 16 \<le> r1" "q = 4 \<longrightarrow> r1 < 16"
  shows "utf8_EncodeRune (q * 262144 + r1 * 4096 + r2 * 64 + r3)
     = [char_of (240 + q), char_of (128 + r1), char_of (128 + r2), char_of (128 + r3)]"
proof -
  let ?c = "q * 262144 + r1 * 4096 + r2 * 64 + r3"
  have big: "0x10000 \<le> ?c" using assms by auto
  have 1: "\<not> ?c \<le> 0x7F" "\<not> ?c \<le> 0x7FF" "\<not> ?c \<le> 0xFFFF" using big by simp_all
  have 2: "\<not> ?c > 0x10FFFF"
  proof -
    consider "q \<le> 3" | "q = 4" using assms(1) by linarith
    then show ?thesis
    proof cases
      case 1 then show ?thesis using assms by simp
    next
      case 2 then show ?thesis using assms by simp
    qed
  qed
  have 3: "\<not> (0xD800 \<le> ?c \<and> ?c \<le> 0xDFFF)" using big by simp
  show ?thesis
    unfolding utf8_EncodeRune_def
    by (simp only: 1 2 3 if_True if_False simp_thms divmod4 [OF assms(2,3,4)])
qed


lemma utf8_first_cases:
  assumes "utf8_first p0 = Some (sz, lo, hi)"
  shows "(sz = 2 \<and> lo = 128 \<and> hi = 191 \<and> 194 \<le> p0 \<and> p0 \<le> 223)
       \<or> (sz = 3 \<and> 224 \<le> p0 \<and> p0 \<le> 239 \<and> lo = (if p0 = 224 then 160 else 128)
            \<and> hi = (if p0 = 237 then 159 else 191))
       \<or> (sz = 4 \<and> 240 \<le> p0 \<and> p0 \<le> 244 \<and> lo = (if p0 = 240 then 144 else 128)
            \<and> hi = (if p0 = 244 then 143 else 191))"
  using assms by (auto simp: utf8_first_def split: if_splits)

lemma utf8_DecodeRune_unfold:
  assumes "\<not> (of_char b :: nat) < 0x80"
  shows "utf8_DecodeRune (b # rest) =
     (case utf8_first (of_char b) of
        None \<Rightarrow> (RuneError, 1)
      | Some (sz, lo, hi) \<Rightarrow>
          if length rest < sz - 1 then (RuneError, 1)
          else if of_char (rest ! 0) < lo \<or> hi < of_char (rest ! 0) then (RuneError, 1)
          else if sz = 2 then ((of_char b mod 32) * 64 + of_char (rest ! 0) mod 64, 2)
          else if \<not> utf8_cont (of_char (rest ! 1)) then (RuneError, 1)
          else if sz = 3 then
            ((of_char b mod 16) * 4096 + (of_char (rest ! 0) mod 64) * 64
               + of_char (rest ! 1) mod 64, 3)
          else if \<not> utf8_cont (of_char (rest ! 2)) then (RuneError, 1)
          else ((of_char b mod 8) * 262144 + (of_char (rest ! 0) mod 64) * 4096
                  + (of_char (rest ! 1) mod 64) * 64 + of_char (rest ! 2) mod 64, 4))"
proof (cases "utf8_first (of_char b)")
  case None
  with assms show ?thesis by (simp add: utf8_DecodeRune_def)
next
  case (Some t)
  obtain sz lo hi where t: "t = (sz, lo, hi)" by (cases t) auto
  from utf8_first_cases [OF Some [unfolded t]] have sz: "sz = 2 \<or> sz = 3 \<or> sz = 4" by auto
  show ?thesis
  proof (cases "length rest < sz - 1")
    case True
    with assms Some t show ?thesis by (simp add: utf8_DecodeRune_def)
  next
    case False
    then have n: "\<And>k. k < sz - 1 \<Longrightarrow> map of_char rest ! k = (of_char (rest ! k) :: nat)"
      by simp
    from sz False have n0: "map of_char rest ! 0 = (of_char (rest ! 0) :: nat)"
      by (intro n) auto
    have n1: "sz \<noteq> 2 \<Longrightarrow> map of_char rest ! 1 = (of_char (rest ! 1) :: nat)"
      using sz False by (intro n) auto
    have n2: "sz \<noteq> 2 \<Longrightarrow> sz \<noteq> 3 \<Longrightarrow> map of_char rest ! 2 = (of_char (rest ! 2) :: nat)"
      using sz False by (intro n) auto
    from assms Some t False n0 n1 n2 show ?thesis
      by (simp add: utf8_DecodeRune_def)
  qed
qed


lemma utf8_DecodeRune_local:
  assumes "\<not> (of_char b :: nat) < 0x80" "utf8_first (of_char b) = Some (sz, lo, hi)"
    and "sz - 1 \<le> length rest"
  shows "utf8_DecodeRune (b # take (sz - 1) rest @ R) = utf8_DecodeRune (b # rest)"
proof -
  from utf8_first_cases [OF assms(2)] consider "sz = 2" | "sz = 3" | "sz = 4" by auto
  then show ?thesis
  proof cases
    case 1
    with assms(3) obtain c1 r' where "rest = c1 # r'" by (cases rest) auto
    with 1 show ?thesis
      unfolding utf8_DecodeRune_unfold [OF assms(1)] assms(2) by simp
  next
    case 2
    with assms(3) obtain c1 c2 r' where "rest = c1 # c2 # r'"
      by (cases rest; cases "tl rest") auto
    with 2 show ?thesis
      unfolding utf8_DecodeRune_unfold [OF assms(1)] assms(2) by simp
  next
    case 3
    with assms(3) obtain c1 c2 c3 r' where "rest = c1 # c2 # c3 # r'"
      by (cases rest; cases "tl rest"; cases "tl (tl rest)") auto
    with 3 show ?thesis
      unfolding utf8_DecodeRune_unfold [OF assms(1)] assms(2) by simp
  qed
qed

lemma utf8_DecodeRune_valid:
  assumes hi_byte: "\<not> (of_char b :: nat) < 0x80"
    and dec: "utf8_DecodeRune (b # rest) = (c, n)"
    and ok: "\<not> (c = RuneError \<and> n = 1)"
  shows "2 \<le> n" and "n - 1 \<le> length rest"
    and "utf8_EncodeRune c = b # take (n - 1) rest"
    and "utf8_DecodeRune (b # take (n - 1) rest @ R) = (c, n)"
proof -
  let ?p0 = "of_char b :: nat"
  from dec ok obtain sz lo hi where first: "utf8_first ?p0 = Some (sz, lo, hi)"
    unfolding utf8_DecodeRune_unfold [OF hi_byte]
    by (cases "utf8_first ?p0") auto
  note cases = utf8_first_cases [OF first]
  from dec ok have len: "\<not> length rest < sz - 1"
    unfolding utf8_DecodeRune_unfold [OF hi_byte] first by (auto split: if_splits)
  have n_sz: "n = sz"
    using dec ok len cases
    unfolding utf8_DecodeRune_unfold [OF hi_byte] first by (auto split: if_splits)
  show "2 \<le> n" using cases n_sz by auto
  show "n - 1 \<le> length rest" using len n_sz by simp
  show "utf8_DecodeRune (b # take (n - 1) rest @ R) = (c, n)"
    using utf8_DecodeRune_local [OF hi_byte first, of rest R] len dec n_sz by simp
  show "utf8_EncodeRune c = b # take (n - 1) rest"
  proof -
    consider (two) "sz = 2" | (three) "sz = 3" | (four) "sz = 4" using cases by auto
    then show ?thesis
    proof cases
      case two
      with cases have p: "194 \<le> ?p0" "?p0 \<le> 223" and lh: "lo = 128" "hi = 191" by auto
      from two len obtain c1 r' where rest: "rest = c1 # r'" by (cases rest) auto
      let ?b1 = "of_char c1 :: nat"
      note d = dec [unfolded utf8_DecodeRune_unfold [OF hi_byte] first rest two]
      from d ok have b1: "lo \<le> ?b1" "?b1 \<le> hi" by (auto split: if_splits)
      define q where "q = ?p0 - 192"
      define r1 where "r1 = ?b1 - 128"
      have q: "?p0 = 192 + q" "2 \<le> q" "q < 32" using p by (auto simp: q_def)
      have r1: "?b1 = 128 + r1" "r1 < 64" using b1 lh by (auto simp: r1_def)
      have c: "c = q * 64 + r1"
        using d b1 by (simp add: q(1) r1(1) mod_shift q(3) r1(2))
      have "utf8_EncodeRune c = [char_of ?p0, char_of ?b1]"
        unfolding c q(1) r1(1) by (rule utf8_EncodeRune_2 [OF q(2,3) r1(2)])
      then show ?thesis using rest n_sz two by simp
    next
      case three
      with cases have p: "224 \<le> ?p0" "?p0 \<le> 239"
        and lo: "lo = (if ?p0 = 224 then 160 else 128)"
        and hi: "hi = (if ?p0 = 237 then 159 else 191)" by auto
      from three len obtain c1 c2 r' where rest: "rest = c1 # c2 # r'"
        by (cases rest; cases "tl rest") auto
      let ?b1 = "of_char c1 :: nat"
      let ?b2 = "of_char c2 :: nat"
      note d = dec [unfolded utf8_DecodeRune_unfold [OF hi_byte] first rest three]
      from d ok have b1: "lo \<le> ?b1" "?b1 \<le> hi" by (auto split: if_splits)
      from d ok have b2: "utf8_cont ?b2" by (auto split: if_splits)
      define q where "q = ?p0 - 224"
      define r1 where "r1 = ?b1 - 128"
      define r2 where "r2 = ?b2 - 128"
      have q: "?p0 = 224 + q" "q < 16" using p by (auto simp: q_def)
      have r1: "?b1 = 128 + r1" "r1 < 64" using b1 lo hi by (auto simp: r1_def split: if_splits)
      have r2: "?b2 = 128 + r2" "r2 < 64" using b2 by (auto simp: r2_def utf8_cont_def)
      have e: "q = 0 \<longrightarrow> 32 \<le> r1" "q = 13 \<longrightarrow> r1 < 32"
        using b1 lo hi q(1) r1(1) by (auto split: if_splits)
      have c: "c = q * 4096 + r1 * 64 + r2"
        using d b1 b2 by (simp add: q(1) r1(1) r2(1) mod_shift q(2) r1(2) r2(2))
      have "utf8_EncodeRune c = [char_of ?p0, char_of ?b1, char_of ?b2]"
        unfolding c q(1) r1(1) r2(1) by (rule utf8_EncodeRune_3 [OF q(2) r1(2) r2(2) e])
      then show ?thesis using rest n_sz three by simp
    next
      case four
      with cases have p: "240 \<le> ?p0" "?p0 \<le> 244"
        and lo: "lo = (if ?p0 = 240 then 144 else 128)"
        and hi: "hi = (if ?p0 = 244 then 143 else 191)" by auto
      from four len obtain c1 c2 c3 r' where rest: "rest = c1 # c2 # c3 # r'"
        by (cases rest; cases "tl rest"; cases "tl (tl rest)") auto
      let ?b1 = "of_char c1 :: nat"
      let ?b2 = "of_char c2 :: nat"
      let ?b3 = "of_char c3 :: nat"
      note d = dec [unfolded utf8_DecodeRune_unfold [OF hi_byte] first rest four]
      from d ok have b1: "lo \<le> ?b1" "?b1 \<le> hi" by (auto split: if_splits)
      from d ok have b2: "utf8_cont ?b2" by (auto split: if_splits)
      from d ok have b3: "utf8_cont ?b3" by (auto split: if_splits)
      define q where "q = ?p0 - 240"
      define r1 where "r1 = ?b1 - 128"
      define r2 where "r2 = ?b2 - 128"
      define r3 where "r3 = ?b3 - 128"
      have q: "?p0 = 240 + q" "q \<le> 4" using p by (auto simp: q_def)
      have q8: "q < 8" using q(2) by simp
      have r1: "?b1 = 128 + r1" "r1 < 64" using b1 lo hi by (auto simp: r1_def split: if_splits)
      have r2: "?b2 = 128 + r2" "r2 < 64" using b2 by (auto simp: r2_def utf8_cont_def)
      have r3: "?b3 = 128 + r3" "r3 < 64" using b3 by (auto simp: r3_def utf8_cont_def)
      have e: "q = 0 \<longrightarrow> 16 \<le> r1" "q = 4 \<longrightarrow> r1 < 16"
        using b1 lo hi q(1) r1(1) by (auto split: if_splits)
      have c: "c = q * 262144 + r1 * 4096 + r2 * 64 + r3"
        using d b1 b2 b3
        by (simp add: q(1) r1(1) r2(1) r3(1) mod_shift q8 r1(2) r2(2) r3(2))
      have "utf8_EncodeRune c = [char_of ?p0, char_of ?b1, char_of ?b2, char_of ?b3]"
        unfolding c q(1) r1(1) r2(1) r3(1)
        by (rule utf8_EncodeRune_4 [OF q(2) r1(2) r2(2) r3(2) e])
      then show ?thesis using rest n_sz four by simp
    qed
  qed
qed

section \<open>String literals\<close>

text \<open>What \<open>json.Marshal\<close> writes for a string is a string literal that the decoder
  accepts, and it decodes to the string itself when that is well-formed UTF-8.\<close>

lemma hex_val_hex_char: "d < 16 \<Longrightarrow> hex_val (hex_char d) = Some d"
proof -
  assume "d < 16"
  then have "d = 0 \<or> d = 1 \<or> d = 2 \<or> d = 3 \<or> d = 4 \<or> d = 5 \<or> d = 6 \<or> d = 7 \<or> d = 8
    \<or> d = 9 \<or> d = 10 \<or> d = 11 \<or> d = 12 \<or> d = 13 \<or> d = 14 \<or> d = 15" by arith
  then show ?thesis by (auto simp: hex_val_def hex_char_def)
qed

lemma utf8_EncodeRune_ascii: "(of_char b :: nat) < 0x80 \<Longrightarrow> utf8_EncodeRune (of_char b) = [b]"
  by (simp add: utf8_EncodeRune_def)

lemma unquote_body_safe:
  assumes "(of_char b :: nat) < 0x80" "htmlSafe b"
  shows "unquote_body (b # r) = map_option ((#) b) (unquote_body r)"
  using assms by (simp add: unquote_body.simps htmlSafe_def)

lemma unquote_body_u00:
  assumes "(of_char b :: nat) < 0x80"
  shows "unquote_body (backslash_ch # CHR ''u'' # CHR ''0'' # CHR ''0''
            # hex_char (of_char b div 16) # hex_char (of_char b mod 16) # r)
         = map_option ((#) b) (unquote_body r)"
proof -
  let ?n = "of_char b :: nat"
  have h: "hex_val (hex_char (?n div 16)) = Some (?n div 16)"
    "hex_val (hex_char (?n mod 16)) = Some (?n mod 16)"
    using assms by (simp_all add: hex_val_hex_char)
  have z: "hex_val CHR ''0'' = Some 0" by (simp add: hex_val_def)
  have g: "getu4 (CHR ''0'' # CHR ''0'' # hex_char (?n div 16) # hex_char (?n mod 16) # r)
             = Some ?n"
    by (simp add: getu4_def h z)
  have s: "\<not> utf16_IsSurrogate ?n" using assms by (simp add: utf16_IsSurrogate_def)
  have m: "map_option ((@) [b]) x = map_option ((#) b) x" for x :: "string option"
    by (cases x) simp_all
  show ?thesis
    by (subst unquote_body.simps)
       (simp add: g s utf8_EncodeRune_ascii [OF assms] m del: of_char_eq_iff)
qed

lemma unquote_body_escape:
  assumes "(of_char b :: nat) < 0x80" "\<not> htmlSafe b"
  shows "unquote_body (escape_byte b @ r) = map_option ((#) b) (unquote_body r)"
proof -
  consider "b = backslash_ch" | "b = quote_ch" | "b = CHR 0x08" | "b = CHR 0x0C"
    | "b = CHR 0x0A" | "b = CHR 0x0D" | "b = CHR 0x09"
    | "b \<noteq> backslash_ch" "b \<noteq> quote_ch" "b \<noteq> CHR 0x08" "b \<noteq> CHR 0x0C"
      "b \<noteq> CHR 0x0A" "b \<noteq> CHR 0x0D" "b \<noteq> CHR 0x09"
    by blast
  then show ?thesis
  proof cases
    case 8
    then have "escape_byte b = [backslash_ch, CHR ''u'', CHR ''0'', CHR ''0'',
        hex_char (of_char b div 16), hex_char (of_char b mod 16)]"
      by (simp add: escape_byte_def)
    then show ?thesis using unquote_body_u00 [OF assms(1), of r] by simp
  qed (simp_all add: escape_byte_def unquote_body.simps simple_escape_def
        backslash_ch_def quote_ch_def)
qed

lemma unquote_body_ufffd:
  "unquote_body (backslash_ch # ''ufffd'' @ r)
     = map_option ((@) [CHR 0xEF, CHR 0xBF, CHR 0xBD]) (unquote_body r)"
  by (subst unquote_body.simps)
     (simp add: getu4_def hex_val_def utf16_IsSurrogate_def utf8_EncodeRune_def char_of_def
        bit_Suc_0_iff)

lemma unquote_body_u202:
  assumes "c = 0x2028 \<or> c = 0x2029"
  shows "unquote_body (backslash_ch # ''u202'' @ [hex_char (c mod 16)] @ r)
     = map_option ((@) (utf8_EncodeRune c)) (unquote_body r)"
  using assms
  by (subst unquote_body.simps)
     (auto simp: getu4_def hex_val_def hex_char_def utf16_IsSurrogate_def)

lemma unquote_body_raw:
  assumes hi_byte: "\<not> (of_char b :: nat) < 0x80"
    and dec: "utf8_DecodeRune (b # rest) = (c, n)"
    and ok: "\<not> (c = RuneError \<and> n = 1)"
  shows "unquote_body (take n (b # rest) @ r)
     = map_option ((@) (take n (b # rest))) (unquote_body r)"
proof -
  note v = utf8_DecodeRune_valid [OF hi_byte dec ok]
  have n: "n = Suc (n - 1)" using v(1) by simp
  have t: "take n (b # rest) = b # take (n - 1) rest" by (subst n) simp
  have b: "b \<noteq> backslash_ch" "b \<noteq> quote_ch" "\<not> (of_char b :: nat) < 0x20"
    using hi_byte by (auto simp: backslash_ch_def quote_ch_def)
  have l: "length (take (n - 1) rest) = n - 1" using v(2) by simp
  have d: "drop (n - 1) (take (n - 1) rest @ r) = r" using l by simp
  have step: "unquote_body (b # X)
      = (case utf8_DecodeRune (b # X) of
           (rr, k) \<Rightarrow> map_option ((@) (utf8_EncodeRune rr)) (unquote_body (drop (k - 1) X)))"
    for X
    by (subst unquote_body.simps) (simp add: b hi_byte del: of_char_eq_iff)
  have "unquote_body (b # take (n - 1) rest @ r)
          = map_option ((@) (b # take (n - 1) rest)) (unquote_body r)"
    by (simp only: step [of "take (n - 1) rest @ r"] v(4) [of r] prod.case d v(3))
  then show ?thesis unfolding t by simp
qed

lemma utf8_DecodeRune_ascii:
  "(of_char b :: nat) < 0x80 \<Longrightarrow> utf8_DecodeRune (b # rest) = (of_char b, 1)"
  by (simp add: utf8_DecodeRune_def)

lemma utf8_Valid_ascii:
  "(of_char b :: nat) < 0x80 \<Longrightarrow> utf8_Valid (b # rest) = utf8_Valid rest"
  by (simp add: utf8_Valid.simps utf8_DecodeRune_ascii RuneError_def)

lemma utf8_Valid_multi:
  assumes "utf8_DecodeRune (b # rest) = (c, n)"
  shows "utf8_Valid (b # rest) = (\<not> (c = RuneError \<and> n = 1) \<and> utf8_Valid (drop (n - 1) rest))"
  using assms by (simp add: utf8_Valid.simps)

lemma appendString_ascii:
  "(of_char b :: nat) < 0x80 \<Longrightarrow>
   appendString (b # rest) =
     (if htmlSafe b then b # appendString rest else escape_byte b @ appendString rest)"
  by (simp add: appendString.simps)

lemma appendString_multi:
  assumes "\<not> (of_char b :: nat) < 0x80" "utf8_DecodeRune (b # rest) = (c, n)"
  shows "appendString (b # rest) =
     (if c = RuneError \<and> n = 1 then backslash_ch # ''ufffd'' @ appendString rest
      else if c = 0x2028 \<or> c = 0x2029 then
        backslash_ch # ''u202'' @ [hex_char (c mod 16)] @ appendString (drop (n - 1) rest)
      else take n (b # rest) @ appendString (drop (n - 1) rest))"
  using assms by (simp add: appendString.simps del: of_char_eq_iff)

lemma unquote_appendString:
  "(\<exists>t. unquote_body (appendString s) = Some t)
   \<and> (utf8_Valid s \<longrightarrow> unquote_body (appendString s) = Some s)"
proof (induction s rule: length_induct)
  case (1 s)
  show ?case
  proof (cases s)
    case Nil
    then show ?thesis by (simp add: appendString.simps unquote_body.simps utf8_Valid.simps)
  next
    case (Cons b rest)
    have IH: "(\<exists>t. unquote_body (appendString (drop k rest)) = Some t)
        \<and> (utf8_Valid (drop k rest) \<longrightarrow>
             unquote_body (appendString (drop k rest)) = Some (drop k rest))" for k
      using 1 Cons by simp
    from IH [of 0] obtain t0 where t0: "unquote_body (appendString rest) = Some t0" by auto
    show ?thesis
    proof (cases "(of_char b :: nat) < 0x80")
      case True
      have u: "unquote_body (appendString (b # rest))
                 = map_option ((#) b) (unquote_body (appendString rest))"
        using True unquote_body_safe [OF True] unquote_body_escape [OF True]
        by (simp add: appendString_ascii)
      show ?thesis
        unfolding Cons u using IH [of 0] True by (auto simp: utf8_Valid_ascii)
    next
      case False
      obtain c n where dec: "utf8_DecodeRune (b # rest) = (c, n)"
        by (cases "utf8_DecodeRune (b # rest)") auto
      show ?thesis
      proof (cases "c = RuneError \<and> n = 1")
        case True
        then have "appendString (b # rest) = backslash_ch # ''ufffd'' @ appendString rest"
          using appendString_multi [OF False dec] by simp
        then have "unquote_body (appendString (b # rest)) = Some ([CHR 0xEF, CHR 0xBF, CHR 0xBD] @ t0)"
          using unquote_body_ufffd [of "appendString rest"] t0 by simp
        moreover have "\<not> utf8_Valid (b # rest)"
          using True by (simp add: utf8_Valid_multi [OF dec])
        ultimately show ?thesis unfolding Cons by simp
      next
        case ok: False
        note v = utf8_DecodeRune_valid [OF False dec ok]
        from IH [of "n - 1"] obtain t1
          where t1: "unquote_body (appendString (drop (n - 1) rest)) = Some t1" by auto
        have tk: "take n (b # rest) = b # take (n - 1) rest"
          using v(1) by (cases n) simp_all
        have u: "unquote_body (appendString (b # rest))
                   = map_option ((@) (take n (b # rest)))
                       (unquote_body (appendString (drop (n - 1) rest)))"
        proof (cases "c = 0x2028 \<or> c = 0x2029")
          case True
          then have "appendString (b # rest) = backslash_ch # ''u202'' @ [hex_char (c mod 16)]
                       @ appendString (drop (n - 1) rest)"
            using appendString_multi [OF False dec] ok by simp
          then show ?thesis
            using unquote_body_u202 [OF True, of "appendString (drop (n - 1) rest)"] v(3) tk
            by simp
        next
          case False
          then have "appendString (b # rest)
                       = take n (b # rest) @ appendString (drop (n - 1) rest)"
            using appendString_multi [OF \<open>\<not> (of_char b :: nat) < 0x80\<close> dec] ok by simp
          then show ?thesis
            using unquote_body_raw [OF \<open>\<not> (of_char b :: nat) < 0x80\<close> dec ok] by simp
        qed
        have whole: "take n (b # rest) @ drop (n - 1) rest = b # rest"
          unfolding tk by simp
        show ?thesis
          unfolding Cons u
          using t1 IH [of "n - 1"] ok whole by (auto simp: utf8_Valid_multi [OF dec])
      qed
    qed
  qed
qed

lemma json_unquote_Marshal:
  "\<exists>t. json_unquote (fst (json_Marshal_string s)) = Some t"
  using unquote_appendString [of s]
  by (simp add: json_Marshal_string_def json_unquote_def quoted_def)

lemma json_unquote_Marshal_valid:
  "utf8_Valid s \<Longrightarrow> json_unquote (fst (json_Marshal_string s)) = Some s"
  using unquote_appendString [of s]
  by (simp add: json_Marshal_string_def json_unquote_def quoted_def)

section \<open>Formatting a time and parsing it back\<close>

text \<open>The layout RFC 3339 parses what \<open>RFC3339Nano\<close> formats, field by field.\<close>

lemma dec_val_Cons: "dec_val (c # cs) = digit_val c * 10 ^ length cs + dec_val cs"
proof (induction cs arbitrary: c rule: rev_induct)
  case Nil
  show ?case by (simp add: dec_val_def)
next
  case (snoc x xs)
  have "dec_val (c # xs @ [x]) = 10 * dec_val (c # xs) + digit_val x"
    using dec_val_snoc [of "c # xs" x] by simp
  also have "\<dots> = 10 * (digit_val c * 10 ^ length xs + dec_val xs) + digit_val x"
    by (simp only: snoc.IH)
  also have "\<dots> = digit_val c * 10 ^ length (xs @ [x]) + dec_val (xs @ [x])"
    by (simp add: dec_val_snoc algebra_simps)
  finally show ?case .
qed

lemma length_digits_of: "length (digits_of m n) = m"
  by (simp add: digits_of_def)

lemma digits_of_digits: "list_all isDigit (digits_of m n)"
  by (simp add: digits_of_def list_all_iff isDigit_digit_char)

lemma dec_val_digits_of: "dec_val (digits_of m n) = n mod 10 ^ m"
proof (induction m)
  case 0
  show ?case by (simp add: digits_of_def dec_val_def)
next
  case (Suc m)
  have "digits_of (Suc m) n = digit_char (n div 10 ^ m mod 10) # digits_of m n"
    by (simp add: digits_of_def)
  then have "dec_val (digits_of (Suc m) n)
      = digit_val (digit_char (n div 10 ^ m mod 10)) * 10 ^ m + dec_val (digits_of m n)"
    by (simp add: dec_val_Cons length_digits_of)
  also have "\<dots> = (n div 10 ^ m mod 10) * 10 ^ m + n mod 10 ^ m"
    by (simp add: digit_val_digit_char Suc.IH)
  also have "\<dots> = n mod 10 ^ Suc m"
    using mod_mult2_eq [of n "10 ^ m" 10] by (simp add: mult.commute)
  finally show ?case .
qed

lemma pad2_digits_of: "pad2 n = digits_of 2 n"
  by (simp add: pad2_def digits_of_def numeral_2_eq_2)

lemma pad4_digits_of: "pad4 n = digits_of 4 n"
proof -
  have "rev [0..<4] = [3, 2, 1, 0::nat]" by (simp add: upt_rec)
  then show ?thesis by (simp add: pad4_def digits_of_def)
qed

lemma pad9_digits_of: "pad9 n = digits_of 9 n"
proof -
  have "rev [0..<9] = [8, 7, 6, 5, 4, 3, 2, 1, 0::nat]" by (simp add: upt_rec)
  then show ?thesis by (simp add: pad9_def digits_of_def)
qed

lemma getnum_pad2:
  assumes "n < 100"
  shows "getnum (pad2 n @ r) fixed = Some (n, r)"
proof -
  let ?a = "digit_char (n div 10 mod 10)" and ?b = "digit_char (n mod 10)"
  have d: "isDigit ?a" "isDigit ?b" by (simp_all add: isDigit_digit_char)
  have "digit_val ?a * 10 + digit_val ?b = (n div 10 mod 10) * 10 + n mod 10"
    by (simp add: digit_val_digit_char)
  also have "\<dots> = n" using assms by simp
  finally have v: "digit_val ?a * 10 + digit_val ?b = n" .
  show ?thesis using d v by (simp add: getnum_def pad2_def)
qed

lemma hd_pad2_digit: "isDigit (hd (pad2 n @ r))"
  by (simp add: pad2_def isDigit_digit_char)

lemma skip_char: "c \<noteq> CHR '' '' \<Longrightarrow> skip (c # r) [c] = Some r"
  by simp

lemma skip_nil: "skip v [] = Some v"
  by simp

lemma parse_chunks_step:
  assumes "skip (ps_value st) prefix = Some v"
    and "parse_std std (st\<lparr>ps_value := v\<rparr>) = Some st'"
  shows "parse_chunks ((prefix, std) # rest) st = parse_chunks rest st'"
  using assms by simp

lemma parse_std_year:
  assumes "ps_value st = pad4 y @ r" "y < 10000"
  shows "parse_std stdLongYear st = Some (st\<lparr>ps_year := y, ps_value := r\<rparr>)"
proof -
  have l: "length (pad4 y) = 4" by (simp add: pad4_def)
  have h: "isDigit (hd (pad4 y @ r))" by (simp add: pad4_def isDigit_digit_char)
  have a: "list_all isDigit (pad4 y)" by (simp add: pad4_digits_of digits_of_digits)
  have v: "dec_val (pad4 y) = y" using assms(2) by (simp add: pad4_digits_of dec_val_digits_of)
  show ?thesis using l h a v by (simp add: parse_std_def assms(1))
qed

lemma parse_std_month:
  assumes "ps_value st = pad2 m @ r" "1 \<le> m" "m \<le> 12"
  shows "parse_std stdZeroMonth st = Some (st\<lparr>ps_month := m, ps_value := r\<rparr>)"
  using assms by (simp add: parse_std_def getnum_pad2)

lemma parse_std_day:
  assumes "ps_value st = pad2 d @ r" "d < 100"
  shows "parse_std stdZeroDay st = Some (st\<lparr>ps_day := d, ps_value := r\<rparr>)"
  using assms by (simp add: parse_std_def getnum_pad2)

lemma parse_std_hour:
  assumes "ps_value st = pad2 h @ r" "h < 24"
  shows "parse_std stdHour st = Some (st\<lparr>ps_hour := h, ps_value := r\<rparr>)"
  using assms by (simp add: parse_std_def getnum_pad2)

lemma parse_std_minute:
  assumes "ps_value st = pad2 m @ r" "m < 60"
  shows "parse_std stdZeroMinute st = Some (st\<lparr>ps_min := m, ps_value := r\<rparr>)"
  using assms by (simp add: parse_std_def getnum_pad2)

lemma dec_val_zeros: "dec_val (xs @ replicate k (CHR ''0'')) = dec_val xs * 10 ^ k"
proof (induction k)
  case 0
  show ?case by simp
next
  case (Suc k)
  have "xs @ replicate (Suc k) (CHR ''0'') = (xs @ replicate k (CHR ''0'')) @ [CHR ''0'']"
    by (simp add: replicate_append_same)
  then have "dec_val (xs @ replicate (Suc k) (CHR ''0''))
      = 10 * dec_val (xs @ replicate k (CHR ''0'')) + digit_val (CHR ''0'')"
    by (simp only: dec_val_snoc)
  then show ?case by (simp add: Suc.IH digit_val_def)
qed

lemma takeWhile_eq_replicate:
  "takeWhile (\<lambda>c. c = z) ys = replicate (length (takeWhile (\<lambda>c. c = z) ys)) z"
  by (induction ys) auto

lemma strip_trailing:
  "xs = rev (dropWhile (\<lambda>c. c = z) (rev xs))
          @ replicate (length (takeWhile (\<lambda>c. c = z) (rev xs))) z"
proof -
  let ?P = "\<lambda>c. c = z"
  have "rev xs = takeWhile ?P (rev xs) @ dropWhile ?P (rev xs)" by simp
  then have "xs = rev (takeWhile ?P (rev xs) @ dropWhile ?P (rev xs))"
    by (metis rev_rev_ident)
  also have "\<dots> = rev (dropWhile ?P (rev xs)) @ rev (takeWhile ?P (rev xs))"
    by (simp only: rev_append)
  also have "rev (takeWhile ?P (rev xs)) = replicate (length (takeWhile ?P (rev xs))) z"
    by (subst takeWhile_eq_replicate) simp
  finally show ?thesis .
qed

lemma stripped_nanos:
  assumes "0 < ns" "ns < 10 ^ 9"
  defines "ds \<equiv> rev (dropWhile (\<lambda>c. c = CHR ''0'') (rev (pad9 ns)))"
  shows "ds \<noteq> []" "list_all isDigit ds" "length ds \<le> 9"
    and "dec_val ds * 10 ^ (9 - length ds) = ns"
proof -
  let ?k = "length (takeWhile (\<lambda>c. c = CHR ''0'') (rev (pad9 ns)))"
  have split: "pad9 ns = ds @ replicate ?k (CHR ''0'')"
    unfolding ds_def by (rule strip_trailing)
  have len: "length ds + ?k = 9"
    using arg_cong [OF split, of length] by (simp add: pad9_digits_of length_digits_of)
  have val: "dec_val ds * 10 ^ ?k = ns"
    using arg_cong [OF split, of dec_val] assms(2)
    by (simp add: dec_val_zeros pad9_digits_of dec_val_digits_of)
  show "length ds \<le> 9" using len by simp
  show "dec_val ds * 10 ^ (9 - length ds) = ns"
  proof -
    have "9 - length ds = ?k" using len by simp
    then show ?thesis using val by simp
  qed
  show "ds \<noteq> []"
  proof
    assume "ds = []"
    then have "dec_val ds = 0" by (simp add: dec_val_def)
    with val assms(1) show False by simp
  qed
  show "list_all isDigit ds"
  proof -
    have "list_all isDigit (pad9 ns)" by (simp add: pad9_digits_of digits_of_digits)
    then show ?thesis by (subst (asm) split) simp
  qed
qed

lemma takeWhile_digits_then:
  assumes "list_all isDigit ds" "z \<noteq> []" "\<not> isDigit (hd z)"
  shows "takeWhile isDigit (ds @ z) = ds"
proof -
  obtain c z' where z: "z = c # z'" using assms(2) by (cases z) auto
  have "takeWhile isDigit z = []" using assms(3) z by simp
  moreover have "\<forall>x\<in>set ds. isDigit x" using assms(1) by (simp add: list_all_iff)
  ultimately show ?thesis by (simp add: takeWhile_append2)
qed

lemma parse_std_second:
  assumes v: "ps_value st = pad2 s @ formatNano ns @ z"
    and s: "s < 60" and ns: "ns < 10 ^ 9"
    and z: "z \<noteq> []" "\<not> isDigit (hd z)" "\<not> commaOrPeriod (hd z)"
    and st: "ps_nsec st = 0"
  shows "parse_std stdZeroSecond st
     = Some (st\<lparr>ps_sec := s, ps_nsec := ns, ps_value := z\<rparr>)"
proof (cases "ns = 0")
  case True
  obtain c z' where zc: "z = c # z'" using z(1) by (cases z) auto
  have g: "getnum (ps_value st) True = Some (s, z)"
    using s by (simp add: v True formatNano_def getnum_pad2)
  have same: "st\<lparr>ps_sec := s, ps_value := z\<rparr> = st\<lparr>ps_sec := s, ps_nsec := ns, ps_value := z\<rparr>"
    using st True by simp
  have "parse_std stdZeroSecond st = Some (st\<lparr>ps_sec := s, ps_value := z\<rparr>)"
    using s z(3) zc by (simp add: parse_std_def g)
  then show ?thesis by (simp only: same)
next
  case False
  define ds where "ds = rev (dropWhile (\<lambda>c. c = CHR ''0'') (rev (pad9 ns)))"
  have pos: "0 < ns" using False by simp
  note d = stripped_nanos [OF pos ns, folded ds_def]
  have f: "formatNano ns = CHR ''.'' # ds" using False by (simp add: formatNano_def ds_def)
  let ?v' = "CHR ''.'' # ds @ z"
  have g: "getnum (ps_value st) True = Some (s, ?v')"
    using s by (simp add: v f getnum_pad2)
  obtain e ds' where dse: "ds = e # ds'" using d(1) by (cases ds) auto
  have e: "isDigit e" using d(2) dse by simp
  have tw: "takeWhile isDigit (ds @ z) = ds" by (rule takeWhile_digits_then [OF d(2) z(1,2)])
  let ?n = "1 + length ds"
  have m: "min ?n 10 = ?n" using d(3) by simp
  have pn: "parseNanoseconds ?v' ?n = ns"
    unfolding parseNanoseconds_def Let_def m using d(4) by simp
  have cond: "length ?v' \<ge> 2 \<and> commaOrPeriod (hd ?v') \<and> isDigit (?v' ! 1)"
    using e dse by (simp add: commaOrPeriod_def)
  have dr: "drop ?n ?v' = z" by simp
  have n: "1 + length (takeWhile isDigit (tl ?v')) = ?n" using tw by simp
  show ?thesis
    unfolding parse_std_def Let_def g
    using s cond pn dr n by (simp del: One_nat_def)
qed

lemma daysIn_le: "1 \<le> m \<Longrightarrow> m \<le> 12 \<Longrightarrow> daysIn m y \<le> 31"
proof -
  assume "1 \<le> m" "m \<le> 12"
  then have "m = 1 \<or> m = 2 \<or> m = 3 \<or> m = 4 \<or> m = 5 \<or> m = 6 \<or> m = 7 \<or> m = 8 \<or> m = 9
    \<or> m = 10 \<or> m = 11 \<or> m = 12" by arith
  then show ?thesis by (elim disjE) (simp_all add: daysIn_def)
qed

lemma getnum_two:
  assumes "n < 100"
  shows "getnum (pad2 n) True = Some (n, [])"
  using getnum_pad2 [OF assms, of "[]" True] by simp

lemma formatZone_head:
  "formatZone off \<noteq> []" "\<not> isDigit (hd (formatZone off))"
  "\<not> commaOrPeriod (hd (formatZone off))"
  by (simp_all add: formatZone_def isDigit_def commaOrPeriod_def)

lemma parse_std_zone:
  assumes v: "ps_value st = formatZone off" and h: "zone_minutes off div 60 < 24"
  shows "parse_std stdISO8601ColonTZ st
     = Some (if off = 0 then st\<lparr>ps_utc := True, ps_value := []\<rparr>
             else st\<lparr>ps_zoneOffset := offset_minutes off, ps_value := []\<rparr>)"
proof (cases "off = 0")
  case True
  then show ?thesis by (simp add: parse_std_def v formatZone_def)
next
  case False
  let ?zm = "zone_minutes off"
  let ?hh = "?zm div 60" and ?mm = "?zm mod 60"
  let ?sign = "if off \<le> - 60 then CHR ''-'' else CHR ''+''"
  let ?v = "?sign # pad2 ?hh @ CHR '':'' # pad2 ?mm"
  have fv: "formatZone off = ?v" using False by (simp add: formatZone_def)
  have l2: "length (pad2 n) = 2" for n by (simp add: pad2_def)
  have len: "length ?v = 6" by (simp add: l2)
  have colon: "?v ! 3 = CHR '':''" by (simp add: pad2_def)
  have t1: "take 2 (drop 1 ?v) = pad2 ?hh" by (simp add: l2)
  have t2: "take 2 (drop 4 ?v) = pad2 ?mm" by (simp add: pad2_def)
  have d6: "drop 6 ?v = []" by (simp add: pad2_def)
  have g1: "getnum (pad2 ?hh) True = Some (?hh, [])" using h by (intro getnum_two) simp
  have g2: "getnum (pad2 ?mm) True = Some (?mm, [])" by (intro getnum_two) simp
  have notZ: "hd ?v \<noteq> CHR ''Z''" by simp
  have sum: "(?hh * 60 + ?mm) * 60 = ?zm * 60" by simp
  have r: "parse_std stdISO8601ColonTZ st
      = Some (st\<lparr>ps_zoneOffset := offset_minutes off, ps_value := []\<rparr>)"
    unfolding parse_std_def Let_def v fv
    using h
    by (simp only: std_chunk.case len colon t1 t2 d6 g1 g2 notZ sum offset_minutes_def)
       (simp add: pad2_def)
  with False show ?thesis by simp
qed

lemma time_Parse_format:
  assumes wf: "time_wf t"
    and year: "0 \<le> tm_year t" "tm_year t \<le> 9999"
    and zone: "zone_minutes (tm_offset t) div 60 < 24"
  shows "time_Parse zs RFC3339 (formatRFC3339Nano t)
     = Inr (t\<lparr>tm_offset := offset_minutes (tm_offset t)\<rparr>)"
proof -
  define y where "y = nat (tm_year t)"
  let ?m = "tm_month t" and ?d = "tm_day t" and ?h = "tm_hour t" and ?mi = "tm_min t"
  let ?s = "tm_sec t" and ?ns = "tm_nsec t" and ?off = "tm_offset t"
  have yy: "int y = tm_year t" "y < 10000" using year by (simp_all add: y_def)
  from wf have m: "1 \<le> ?m" "?m \<le> 12" and d: "1 \<le> ?d" "?d \<le> daysIn ?m (tm_year t)"
    and h: "?h < 24" and mi: "?mi < 60" and s: "?s < 60" and ns: "?ns < 10 ^ 9"
    by (simp_all add: time_wf_def)
  have d100: "?d < 100" using d(2) daysIn_le [OF m, of "tm_year t"] by simp
  define r6 where "r6 = formatZone ?off"
  define r5 where "r5 = pad2 ?s @ formatNano ?ns @ r6"
  define r4 where "r4 = pad2 ?mi @ CHR '':'' # r5"
  define r3 where "r3 = pad2 ?h @ CHR '':'' # r4"
  define r2 where "r2 = pad2 ?d @ CHR ''T'' # r3"
  define r1 where "r1 = pad2 ?m @ CHR ''-'' # r2"
  define v where "v = pad4 y @ CHR ''-'' # r1"
  have fmt: "formatRFC3339Nano t = v"
    by (simp add: formatRFC3339Nano_def v_def r1_def r2_def r3_def r4_def r5_def r6_def y_def)
  define s0 where "s0 = parse_init v"
  define s1 where "s1 = s0\<lparr>ps_year := y, ps_value := CHR ''-'' # r1\<rparr>"
  define s2 where "s2 = s1\<lparr>ps_month := ?m, ps_value := CHR ''-'' # r2\<rparr>"
  define s3 where "s3 = s2\<lparr>ps_day := ?d, ps_value := CHR ''T'' # r3\<rparr>"
  define s4 where "s4 = s3\<lparr>ps_hour := ?h, ps_value := CHR '':'' # r4\<rparr>"
  define s5 where "s5 = s4\<lparr>ps_min := ?mi, ps_value := CHR '':'' # r5\<rparr>"
  define s6 where "s6 = s5\<lparr>ps_sec := ?s, ps_nsec := ?ns, ps_value := r6\<rparr>"
  define s7 where "s7 = (if ?off = 0 then s6\<lparr>ps_utc := True, ps_value := []\<rparr>
                         else s6\<lparr>ps_zoneOffset := offset_minutes ?off, ps_value := []\<rparr>)"
  have p1: "parse_std stdLongYear (s0\<lparr>ps_value := v\<rparr>) = Some s1"
    unfolding s1_def
    using parse_std_year [of "s0\<lparr>ps_value := v\<rparr>" y "CHR ''-'' # r1"] yy(2)
    by (simp add: v_def)
  have p2: "parse_std stdZeroMonth (s1\<lparr>ps_value := r1\<rparr>) = Some s2"
    unfolding s2_def
    using parse_std_month [of "s1\<lparr>ps_value := r1\<rparr>" ?m "CHR ''-'' # r2"] m
    by (simp add: r1_def)
  have p3: "parse_std stdZeroDay (s2\<lparr>ps_value := r2\<rparr>) = Some s3"
    unfolding s3_def
    using parse_std_day [of "s2\<lparr>ps_value := r2\<rparr>" ?d "CHR ''T'' # r3"] d100
    by (simp add: r2_def)
  have p4: "parse_std stdHour (s3\<lparr>ps_value := r3\<rparr>) = Some s4"
    unfolding s4_def
    using parse_std_hour [of "s3\<lparr>ps_value := r3\<rparr>" ?h "CHR '':'' # r4"] h
    by (simp add: r3_def)
  have p5: "parse_std stdZeroMinute (s4\<lparr>ps_value := r4\<rparr>) = Some s5"
    unfolding s5_def
    using parse_std_minute [of "s4\<lparr>ps_value := r4\<rparr>" ?mi "CHR '':'' # r5"] mi
    by (simp add: r4_def)
  have nsec0: "ps_nsec (s5\<lparr>ps_value := r5\<rparr>) = 0"
    by (simp add: s5_def s4_def s3_def s2_def s1_def s0_def parse_init_def)
  have p6: "parse_std stdZeroSecond (s5\<lparr>ps_value := r5\<rparr>) = Some s6"
    unfolding s6_def
    using parse_std_second [of "s5\<lparr>ps_value := r5\<rparr>" ?s ?ns r6, OF _ s ns _ _ _ nsec0]
      formatZone_head [of ?off]
    by (simp add: r5_def r6_def)
  have p7: "parse_std stdISO8601ColonTZ (s6\<lparr>ps_value := r6\<rparr>) = Some s7"
    unfolding s7_def
    using parse_std_zone [of "s6\<lparr>ps_value := r6\<rparr>" ?off, OF _ zone]
    by (simp add: r6_def)
  have v0: "ps_value s0 = v" by (simp add: s0_def parse_init_def)
  have v1: "ps_value s1 = CHR ''-'' # r1" by (simp add: s1_def)
  have v2: "ps_value s2 = CHR ''-'' # r2" by (simp add: s2_def)
  have v3: "ps_value s3 = CHR ''T'' # r3" by (simp add: s3_def)
  have v4: "ps_value s4 = CHR '':'' # r4" by (simp add: s4_def)
  have v5: "ps_value s5 = CHR '':'' # r5" by (simp add: s5_def)
  have v6: "ps_value s6 = r6" by (simp add: s6_def)
  have v7: "ps_value s7 = []" by (simp add: s7_def)
  have chunks: "parse_chunks RFC3339 s0 = Some s7"
    unfolding RFC3339_def
    by (simp add: v0 v1 v2 v3 v4 v5 v6 v7 p1 p2 p3 p4 p5 p6 p7)
  have fields: "ps_year s7 = y" "ps_month s7 = ?m" "ps_day s7 = ?d" "ps_hour s7 = ?h"
    "ps_min s7 = ?mi" "ps_sec s7 = ?s" "ps_nsec s7 = ?ns"
    by (simp_all add: s7_def s6_def s5_def s4_def s3_def s2_def s1_def)
  have flags: "ps_utc s7 = (?off = 0)"
    "?off \<noteq> 0 \<Longrightarrow> ps_zoneOffset s7 = offset_minutes ?off"
    by (simp_all add: s7_def s6_def s5_def s4_def s3_def s2_def s1_def s0_def parse_init_def)
  have not_m1: "offset_minutes ?off \<noteq> - 1"
    by (simp add: offset_minutes_def) presburger
  have zero: "offset_minutes 0 = 0"
    by (simp add: offset_minutes_def zone_minutes_def)
  have day_ok: "\<not> (ps_day s7 < 1 \<or> ps_day s7 > daysIn (ps_month s7) (int (ps_year s7)))"
    using d by (simp add: fields yy(1))
  have rec: "\<lparr>tm_year = tm_year t, tm_month = ?m, tm_day = ?d, tm_hour = ?h, tm_min = ?mi,
              tm_sec = ?s, tm_nsec = ?ns, tm_offset = x\<rparr> = t\<lparr>tm_offset := x\<rparr>" for x
    by (cases t) simp
  show ?thesis
  proof (cases "?off = 0")
    case True
    then show ?thesis
      unfolding time_Parse_def fmt s0_def [symmetric] chunks
      using day_ok by (simp add: fields flags yy(1) zero rec del: One_nat_def)
  next
    case False
    then show ?thesis
      unfolding time_Parse_def fmt s0_def [symmetric] chunks
      using day_ok not_m1 by (simp add: fields flags yy(1) rec Let_def del: One_nat_def)
  qed
qed

lemma strings_Trim_quoted:
  assumes "f \<noteq> []" "hd f \<noteq> quote_ch" "last f \<noteq> quote_ch"
  shows "strings_Trim (quoted f) [quote_ch] = f"
proof -
  let ?P = "\<lambda>c. c \<in> set [quote_ch]"
  obtain c cs where f: "f = c # cs" using assms(1) by (cases f) auto
  have 1: "dropWhile ?P (quoted f) = f @ [quote_ch]"
    using assms(2) f by (simp add: quoted_def)
  have "rev f \<noteq> []" "hd (rev f) \<noteq> quote_ch" using assms(1,3) by (simp_all add: hd_rev)
  then have 2: "dropWhile ?P (rev f) = rev f" by (cases "rev f") auto
  have "dropWhile ?P (rev (f @ [quote_ch])) = rev f" using 2 by simp
  then show ?thesis by (simp only: strings_Trim_def 1 rev_rev_ident)
qed

lemma digit_char_not_quote: "d < 10 \<Longrightarrow> digit_char d \<noteq> quote_ch"
  using isDigit_digit_char [of d] isDigit_not_special by blast

lemma formatRFC3339Nano_ends:
  "formatRFC3339Nano t \<noteq> []" "hd (formatRFC3339Nano t) \<noteq> quote_ch"
  "last (formatRFC3339Nano t) \<noteq> quote_ch"
proof -
  show "formatRFC3339Nano t \<noteq> []" by (simp add: formatRFC3339Nano_def pad4_def)
  show "hd (formatRFC3339Nano t) \<noteq> quote_ch"
    by (simp add: formatRFC3339Nano_def pad4_def digit_char_not_quote)
  have z: "formatZone off \<noteq> []" "last (formatZone off) \<noteq> quote_ch" for off
    by (simp_all add: formatZone_def pad2_def digit_char_not_quote [unfolded quote_ch_def]
        quote_ch_def)
  show "last (formatRFC3339Nano t) \<noteq> quote_ch"
    using z [of "tm_offset t"] by (simp add: formatRFC3339Nano_def)
qed

lemma offset_minutes_whole:
  assumes "off mod 60 = 0"
  shows "offset_minutes off = off"
proof -
  from assms have "60 dvd off" by (simp add: dvd_eq_mod_eq_0)
  then obtain k where k: "off = 60 * k" by (rule dvdE)
  show ?thesis
  proof (cases "0 \<le> k")
    case True
    then have "nat \<bar>off\<bar> = nat k * 60" using k by (simp add: nat_mult_distrib)
    then show ?thesis using True k by (simp add: offset_minutes_def zone_minutes_def)
  next
    case False
    then have "nat \<bar>off\<bar> = nat (- k) * 60" using k by (simp add: nat_mult_distrib abs_mult)
    then show ?thesis using False k by (simp add: offset_minutes_def zone_minutes_def)
  qed
qed

lemma zone_hours_bound: "\<bar>off\<bar> < 86400 \<Longrightarrow> zone_minutes off div 60 < 24"
  by (simp add: zone_minutes_def div_mult2_eq [symmetric]) 

lemma Time_decode_quoted_format:
  assumes "time_Parse zs RFC3339 (formatRFC3339Nano t) = Inr t'"
  shows "Time_UnmarshalJSON zs dst (quoted (formatRFC3339Nano t))
     = (None, \<lparr>time_value = t', time_present = True\<rparr>)"
proof -
  let ?f = "formatRFC3339Nano t"
  have tr: "strings_Trim (quoted ?f) [quote_ch] = ?f"
    by (rule strings_Trim_quoted [OF formatRFC3339Nano_ends])
  have ne: "quoted ?f \<noteq> []" "quoted ?f \<noteq> ''null''" "quoted ?f \<noteq> [quote_ch, quote_ch]"
    using formatRFC3339Nano_ends(1) [of t] by (simp_all add: quoted_def quote_ch_def)
  show ?thesis
    using ne assms
    by (simp add: Time_UnmarshalJSON_def Let_def timeLayouts_def tr Time_fields)
qed

lemma integer_literal_fmt_d: "integer_literal (fmt_d i)"
proof -
  have "hd (dec_nat n) \<noteq> CHR ''-''" for n
    using dec_nat_digits [of n] dec_nat_nonempty [of n] isDigit_not_special
    by (cases "dec_nat n") auto
  then show ?thesis
    by (simp add: integer_literal_def fmt_d_def dec_nat_nonempty dec_nat_digits)
qed

section \<open>Decoding empty input and null\<close>

text \<open>
  Claim C4. For each of the kinds String, Bool, Int and Timestamp, decoding the empty
  input or exactly the token \<open>null\<close> returns no error and leaves the instance not
  present with the zero value of the kind, whatever the instance held before.
\<close>

theorem C4_decode_empty_or_null:
  assumes "data = [] \<or> data = ''null''"
  shows "String_UnmarshalJSON s data = (None, \<lparr>string_value = [], string_present = False\<rparr>)
       \<and> Bool_UnmarshalJSON b data = (None, \<lparr>bool_value = False, bool_present = False\<rparr>)
       \<and> Int_UnmarshalJSON i data = (None, \<lparr>int_Value = 0, int_Present = False\<rparr>)
       \<and> Time_UnmarshalJSON zs dst data
           = (None, \<lparr>time_value = time_zero, time_present = False\<rparr>)"
  using assms
  by (auto simp: String_UnmarshalJSON_def Bool_UnmarshalJSON_def Int_UnmarshalJSON_def
      Time_UnmarshalJSON_def)

theorem C4_decode_null_witness:
  "String_UnmarshalJSON \<lparr>string_value = ''old'', string_present = True\<rparr> ''null''
     = (None, \<lparr>string_value = [], string_present = False\<rparr>)
   \<and> Bool_UnmarshalJSON \<lparr>bool_value = True, bool_present = True\<rparr> ''null''
     = (None, \<lparr>bool_value = False, bool_present = False\<rparr>)
   \<and> Int_UnmarshalJSON \<lparr>int_Value = 7, int_Present = True\<rparr> ''null''
     = (None, \<lparr>int_Value = 0, int_Present = False\<rparr>)
   \<and> Time_UnmarshalJSON utc_host \<lparr>time_value = time_zero\<lparr>tm_year := 2023\<rparr>,
                                    time_present = True\<rparr> ''null''
     = (None, \<lparr>time_value = time_zero, time_present = False\<rparr>)"
  using C4_decode_empty_or_null [of "''null''"] by simp

section \<open>The other entry points of Bool and Time\<close>

text \<open>
  Claim C10. For Bool and for Time, \<open>UnmarshalText(b)\<close> and \<open>UnmarshalParam(string(b))\<close>
  return the same error and leave the instance in the same state as \<open>UnmarshalJSON(b)\<close>,
  for every byte sequence \<open>b\<close> and every instance.
\<close>

theorem C10_entry_points_agree:
  "Bool_UnmarshalText b data = Bool_UnmarshalJSON b data
   \<and> Bool_UnmarshalParam b data = Bool_UnmarshalJSON b data
   \<and> Time_UnmarshalText zs dst data = Time_UnmarshalJSON zs dst data
   \<and> Time_UnmarshalParam zs dst data = Time_UnmarshalJSON zs dst data"
  by (simp add: Bool_UnmarshalText_def Bool_UnmarshalParam_def Time_UnmarshalText_def
      Time_UnmarshalParam_def)

section \<open>The accessors of an instance that is not present\<close>

text \<open>
  Claim C8. In every state of an instance, and so after every sequence of operations,
  a presence flag that is false makes the accessor return the zero value of the kind:
  the empty string for \<open>String.Value\<close>, false for \<open>Bool.Value\<close>, 0 for \<open>Int.Get\<close> and
  the zero time for \<open>Time.Value\<close>, whatever the value field holds.
\<close>

theorem C8_absent_reads_zero:
  "(\<not> String_Present s \<longrightarrow> String_Value s = [])
   \<and> (\<not> Bool_Present b \<longrightarrow> Bool_Value b = False)
   \<and> (\<not> int_Present i \<longrightarrow> Int_Get i = 0)
   \<and> (\<not> Time_Present dst \<longrightarrow> Time_Value dst = time_zero)"
  by (simp add: String_Present_def String_Value_def Bool_Present_def Bool_Value_def
      Int_Get_def Time_Present_def Time_Value_def)

theorem C8_absent_reads_zero_witness:
  "String_Value \<lparr>string_value = ''stale'', string_present = False\<rparr> = []
   \<and> Bool_Value \<lparr>bool_value = True, bool_present = False\<rparr> = False
   \<and> Int_Get \<lparr>int_Value = 42, int_Present = False\<rparr> = 0
   \<and> Time_Value \<lparr>time_value = time_zero\<lparr>tm_year := 2023\<rparr>, time_present = False\<rparr>
       = time_zero"
  using C8_absent_reads_zero
    [of "\<lparr>string_value = ''stale'', string_present = False\<rparr>"
        "\<lparr>bool_value = True, bool_present = False\<rparr>"
        "\<lparr>int_Value = 42, int_Present = False\<rparr>"
        "\<lparr>time_value = time_zero\<lparr>tm_year := 2023\<rparr>, time_present = False\<rparr>"]
  by (simp add: String_Present_def Bool_Present_def Time_Present_def)

section \<open>The state after a failed decode\<close>

text \<open>
  Claim C1, as stated, fails for the kind Timestamp: \<open>Time.UnmarshalJSON\<close> sets the
  presence flag before it tries the layouts and does not clear it when none parses (the
  tests of the package expect \<open>Present()\<close> to be true after such an error). The input
  \<open>"invalid-time"\<close>, between quotes, returns the error and leaves \<open>present == true\<close>.
\<close>

theorem C1_time_failed_decode_counterexample:
  "Time_UnmarshalJSON utc_host \<lparr>time_value = time_zero, time_present = False\<rparr>
     (quoted ''invalid-time'')
   = (Some (ErrorString (''invalid time format: '' @ quoted ''invalid-time'')),
      \<lparr>time_value = time_zero, time_present = True\<rparr>)"
  by (simp add: Time_UnmarshalJSON_def time_eval)

text \<open>
  Claim C1, amended. A decode that returns an error leaves a String and an Int not
  present and with the zero value in the value field; it leaves a Bool not present, so
  that \<open>Value()\<close> reports false; it leaves a Timestamp with the zero time in the value
  field and with \<open>present == true\<close>. In no case does an accessor return a value of
  an earlier decode.
\<close>

theorem C1_failed_decode_state:
  "(fst (String_UnmarshalJSON s data) \<noteq> None \<longrightarrow>
      snd (String_UnmarshalJSON s data) = \<lparr>string_value = [], string_present = False\<rparr>)
   \<and> (fst (Int_UnmarshalJSON i data) \<noteq> None \<longrightarrow>
      snd (Int_UnmarshalJSON i data) = \<lparr>int_Value = 0, int_Present = False\<rparr>)
   \<and> (fst (Bool_UnmarshalJSON b data) \<noteq> None \<longrightarrow>
      \<not> Bool_Present (snd (Bool_UnmarshalJSON b data))
      \<and> Bool_Value (snd (Bool_UnmarshalJSON b data)) = False)
   \<and> (fst (Time_UnmarshalJSON zs dst data) \<noteq> None \<longrightarrow>
      snd (Time_UnmarshalJSON zs dst data)
        = \<lparr>time_value = time_zero, time_present = True\<rparr>)"
proof (intro conjI impI)
  assume "fst (String_UnmarshalJSON s data) \<noteq> None"
  then show "snd (String_UnmarshalJSON s data) = \<lparr>string_value = [], string_present = False\<rparr>"
    by (rule String_UnmarshalJSON_error)
next
  assume "fst (Int_UnmarshalJSON i data) \<noteq> None"
  then show "snd (Int_UnmarshalJSON i data) = \<lparr>int_Value = 0, int_Present = False\<rparr>"
    by (rule Int_UnmarshalJSON_error)
next
  assume h: "fst (Bool_UnmarshalJSON b data) \<noteq> None"
  show "\<not> Bool_Present (snd (Bool_UnmarshalJSON b data))"
    using Bool_UnmarshalJSON_error [OF h] by simp
  show "Bool_Value (snd (Bool_UnmarshalJSON b data)) = False"
    using Bool_UnmarshalJSON_error [OF h] by simp
next
  assume h: "fst (Time_UnmarshalJSON zs dst data) \<noteq> None"
  show "snd (Time_UnmarshalJSON zs dst data) = \<lparr>time_value = time_zero, time_present = True\<rparr>"
    by (simp add: Time_UnmarshalJSON_error [OF h])
qed

theorem C1_failed_decode_state_witness:
  "fst (String_UnmarshalJSON \<lparr>string_value = ''old'', string_present = True\<rparr> ''abc'') \<noteq> None
   \<and> snd (String_UnmarshalJSON \<lparr>string_value = ''old'', string_present = True\<rparr> ''abc'')
       = \<lparr>string_value = [], string_present = False\<rparr>
   \<and> fst (Int_UnmarshalJSON \<lparr>int_Value = 7, int_Present = True\<rparr> ''abc'') \<noteq> None
   \<and> snd (Int_UnmarshalJSON \<lparr>int_Value = 7, int_Present = True\<rparr> ''abc'')
       = \<lparr>int_Value = 0, int_Present = False\<rparr>
   \<and> fst (Bool_UnmarshalJSON \<lparr>bool_value = True, bool_present = True\<rparr> ''abc'') \<noteq> None
   \<and> \<not> Bool_Present (snd (Bool_UnmarshalJSON \<lparr>bool_value = True, bool_present = True\<rparr> ''abc''))
   \<and> Bool_Value (snd (Bool_UnmarshalJSON \<lparr>bool_value = True, bool_present = True\<rparr> ''abc''))
       = False
   \<and> fst (Time_UnmarshalJSON utc_host
             \<lparr>time_value = time_zero\<lparr>tm_year := 2023\<rparr>, time_present = True\<rparr> ''abc'') \<noteq> None
   \<and> snd (Time_UnmarshalJSON utc_host
             \<lparr>time_value = time_zero\<lparr>tm_year := 2023\<rparr>, time_present = True\<rparr> ''abc'')
       = \<lparr>time_value = time_zero, time_present = True\<rparr>"
proof -
  have 1: "fst (String_UnmarshalJSON \<lparr>string_value = ''old'', string_present = True\<rparr> ''abc'')
             \<noteq> None"
    by (simp add: String_UnmarshalJSON_def json_eval)
  have 2: "fst (Int_UnmarshalJSON \<lparr>int_Value = 7, int_Present = True\<rparr> ''abc'') \<noteq> None"
    by (simp add: Int_UnmarshalJSON_def json_eval)
  have 3: "fst (Bool_UnmarshalJSON \<lparr>bool_value = True, bool_present = True\<rparr> ''abc'') \<noteq> None"
    by (simp add: Bool_UnmarshalJSON_def strings_Trim_def strings_ToLower_def toLower_byte_def
        quote_ch_def)
  have 4: "fst (Time_UnmarshalJSON utc_host
             \<lparr>time_value = time_zero\<lparr>tm_year := 2023\<rparr>, time_present = True\<rparr> ''abc'') \<noteq> None"
    by (simp add: Time_UnmarshalJSON_def time_eval)
  show ?thesis
    using 1 2 3 4
      C1_failed_decode_state
        [of "\<lparr>string_value = ''old'', string_present = True\<rparr>" "''abc''"
            "\<lparr>int_Value = 7, int_Present = True\<rparr>"
            "\<lparr>bool_value = True, bool_present = True\<rparr>" utc_host
            "\<lparr>time_value = time_zero\<lparr>tm_year := 2023\<rparr>, time_present = True\<rparr>"]
    by blast
qed

section \<open>The layouts of the Timestamp decode\<close>

text \<open>
  Claim C3, as stated, fails at one input: the two bytes \<open>""\<close> are neither empty nor
  \<open>null\<close>, the text left after stripping the quotes is empty and parses under none of
  the four layouts, yet \<open>Time.UnmarshalJSON\<close> returns no error: it has a guard for this
  input and leaves the instance present with the zero time.
\<close>

theorem C3_empty_quotes_counterexample:
  "strings_Trim [quote_ch, quote_ch] [quote_ch] = []
   \<and> time_Parse utc_host RFC3339 [] = Inl ParseError
   \<and> time_Parse utc_host layout_MST [] = Inl ParseError
   \<and> time_Parse utc_host layout_space [] = Inl ParseError
   \<and> time_Parse utc_host layout_T [] = Inl ParseError
   \<and> Time_UnmarshalJSON utc_host \<lparr>time_value = time_zero, time_present = False\<rparr>
        [quote_ch, quote_ch]
      = (None, \<lparr>time_value = time_zero, time_present = True\<rparr>)"
  by (simp add: Time_UnmarshalJSON_def time_eval)

text \<open>
  Claim C3, amended. For an input that is not empty, not \<open>null\<close> and not the two bytes
  \<open>""\<close>, the decode strips the surrounding quotes and tries the four layouts RFC 3339,
  \<open>2006-01-02T15:04:05 MST\<close>, \<open>2006-01-02 15:04:05\<close>, \<open>2006-01-02T15:04:05\<close> in this
  order: the time of the first layout that parses (all layouts before it failing) is the
  resulting value, with no error; if none of the four parses, the decode returns the
  error \<open>invalid time format: \<close> followed by the raw input.
\<close>

theorem C3_layouts_in_order:
  assumes "data \<noteq> []" and "data \<noteq> ''null''" and "data \<noteq> [quote_ch, quote_ch]"
  shows "timeLayouts = [RFC3339, layout_MST, layout_space, layout_T]
   \<and> (\<forall>i t. i < length timeLayouts
          \<and> time_Parse zs (timeLayouts ! i) (strings_Trim data [quote_ch]) = Inr t
          \<and> (\<forall>j<i. \<exists>e. time_Parse zs (timeLayouts ! j) (strings_Trim data [quote_ch]) = Inl e)
        \<longrightarrow> Time_UnmarshalJSON zs dst data
              = (None, \<lparr>time_value = t, time_present = True\<rparr>))
   \<and> ((\<forall>i<length timeLayouts.
          \<exists>e. time_Parse zs (timeLayouts ! i) (strings_Trim data [quote_ch]) = Inl e)
        \<longrightarrow> Time_UnmarshalJSON zs dst data
              = (Some (ErrorString (''invalid time format: '' @ data)),
                 \<lparr>time_value = time_zero, time_present = True\<rparr>))"
proof -
  let ?d = "\<lparr>time_value = time_zero, time_present = True\<rparr>"
  have eq: "Time_UnmarshalJSON zs dst data = Time_UnmarshalJSON_loop zs timeLayouts ?d data"
    using assms by (simp add: Time_UnmarshalJSON_def Let_def Time_fields)
  have first: "Time_UnmarshalJSON zs dst data = (None, \<lparr>time_value = t, time_present = True\<rparr>)"
    if "i < length timeLayouts"
      and "time_Parse zs (timeLayouts ! i) (strings_Trim data [quote_ch]) = Inr t"
      and "\<forall>j<i. \<exists>e. time_Parse zs (timeLayouts ! j) (strings_Trim data [quote_ch]) = Inl e"
    for i t
    using Time_UnmarshalJSON_loop_first [OF that, of ?d] eq by simp
  have none: "Time_UnmarshalJSON zs dst data
                = (Some (ErrorString (''invalid time format: '' @ data)), ?d)"
    if "\<forall>i<length timeLayouts.
          \<exists>e. time_Parse zs (timeLayouts ! i) (strings_Trim data [quote_ch]) = Inl e"
    using Time_UnmarshalJSON_loop_none [OF that, of ?d] eq by simp
  have layouts: "timeLayouts = [RFC3339, layout_MST, layout_space, layout_T]"
    by (simp add: timeLayouts_def)
  from first none layouts show ?thesis by blast
qed


theorem C3_layouts_in_order_witness:
  "time_Parse utc_host (timeLayouts ! 0) (strings_Trim (quoted ''2023-10-05 14:48:00'') [quote_ch])
     = Inl ParseError
   \<and> time_Parse utc_host (timeLayouts ! 1)
       (strings_Trim (quoted ''2023-10-05 14:48:00'') [quote_ch]) = Inl ParseError
   \<and> time_Parse utc_host (timeLayouts ! 2)
       (strings_Trim (quoted ''2023-10-05 14:48:00'') [quote_ch])
     = Inr (time_zero\<lparr>tm_year := 2023, tm_month := 10, tm_day := 5, tm_hour := 14, tm_min := 48\<rparr>)
   \<and> Time_UnmarshalJSON utc_host \<lparr>time_value = time_zero, time_present = False\<rparr>
       (quoted ''2023-10-05 14:48:00'')
     = (None, \<lparr>time_value = time_zero\<lparr>tm_year := 2023, tm_month := 10, tm_day := 5,
                                          tm_hour := 14, tm_min := 48\<rparr>,
               time_present = True\<rparr>)
   \<and> Time_UnmarshalJSON utc_host \<lparr>time_value = time_zero, time_present = False\<rparr>
       (quoted ''2023-10-05'')
     = (Some (ErrorString (''invalid time format: '' @ quoted ''2023-10-05'')),
        \<lparr>time_value = time_zero, time_present = True\<rparr>)"
proof -
  let ?a = "quoted ''2023-10-05 14:48:00''"
  let ?b = "quoted ''2023-10-05''"
  let ?t = "time_zero\<lparr>tm_year := 2023, tm_month := 10, tm_day := 5, tm_hour := 14, tm_min := 48\<rparr>"
  let ?d = "\<lparr>time_value = time_zero, time_present = False\<rparr>"
  have a0: "time_Parse utc_host (timeLayouts ! 0) (strings_Trim ?a [quote_ch]) = Inl ParseError"
    by (simp add: time_eval)
  have a1: "time_Parse utc_host (timeLayouts ! 1) (strings_Trim ?a [quote_ch]) = Inl ParseError"
    by (simp add: time_eval)
  have a2: "time_Parse utc_host (timeLayouts ! 2) (strings_Trim ?a [quote_ch]) = Inr ?t"
    by (simp add: time_eval)
  have below: "\<forall>j<2. \<exists>e. time_Parse utc_host (timeLayouts ! j) (strings_Trim ?a [quote_ch]) = Inl e"
  proof (intro allI impI)
    fix j :: nat assume "j < 2"
    then have "j = 0 \<or> j = 1" by auto
    with a0 a1 show "\<exists>e. time_Parse utc_host (timeLayouts ! j) (strings_Trim ?a [quote_ch]) = Inl e"
      by auto
  qed
  have nea: "?a \<noteq> []" "?a \<noteq> ''null''" "?a \<noteq> [quote_ch, quote_ch]"
    by (simp_all add: quoted_def quote_ch_def)
  have neb: "?b \<noteq> []" "?b \<noteq> ''null''" "?b \<noteq> [quote_ch, quote_ch]"
    by (simp_all add: quoted_def quote_ch_def)
  have len: "(2::nat) < length timeLayouts" by (simp add: timeLayouts_def)
  have ra: "Time_UnmarshalJSON utc_host ?d ?a = (None, \<lparr>time_value = ?t, time_present = True\<rparr>)"
    using C3_layouts_in_order [OF nea, of utc_host ?d] len a2 below by blast
  have allb: "\<forall>i<length timeLayouts.
      \<exists>e. time_Parse utc_host (timeLayouts ! i) (strings_Trim ?b [quote_ch]) = Inl e"
  proof (intro allI impI)
    fix i :: nat assume "i < length timeLayouts"
    then have "i = 0 \<or> i = 1 \<or> i = 2 \<or> i = 3" by (auto simp: timeLayouts_def)
    then show "\<exists>e. time_Parse utc_host (timeLayouts ! i) (strings_Trim ?b [quote_ch]) = Inl e"
      by (elim disjE) (simp_all add: time_eval)
  qed
  have rb: "Time_UnmarshalJSON utc_host ?d ?b
      = (Some (ErrorString (''invalid time format: '' @ ?b)),
         \<lparr>time_value = time_zero, time_present = True\<rparr>)"
    using C3_layouts_in_order [OF neb, of utc_host ?d] allb by blast
  from a0 a1 a2 ra rb show ?thesis by simp
qed

section \<open>Errors of the encoders\<close>

text \<open>
  Claim C7, as stated, fails for the kind Timestamp: \<open>Time.MarshalJSON\<close> hands the value
  to \<open>time.Time.MarshalJSON\<close> and passes its error on, and that function refuses a year
  outside 0 to 9999. A present instance with the year 10000 returns the error.
\<close>

theorem C7_time_marshal_counterexample:
  "Time_MarshalJSON \<lparr>time_value = time_zero\<lparr>tm_year := 10000\<rparr>, time_present = True\<rparr>
   = ([], Some (ErrorString ''Time.MarshalJSON: year outside of range [0,9999]''))"
  by (simp add: Time_MarshalJSON_def time_MarshalJSON_def time_zero_def)

text \<open>
  Claim C7, amended. \<open>MarshalJSON\<close> never returns an error for Bool and Int, in any
  state. For Timestamp it returns no error when the instance is not present, and none
  when the year of the value is within 0 to 9999 and its zone offset is below 24 hours;
  for a present instance with a year outside 0 to 9999 it returns the error of
  \<open>time.Time.MarshalJSON\<close>.
\<close>

theorem C7_marshal_errors:
  "snd (Bool_MarshalJSON b) = None
   \<and> snd (Int_MarshalJSON i) = None
   \<and> (\<not> time_present dst \<longrightarrow> snd (Time_MarshalJSON dst) = None)
   \<and> (0 \<le> tm_year (time_value dst) \<and> tm_year (time_value dst) \<le> 9999
        \<and> \<bar>tm_offset (time_value dst)\<bar> < 86400 \<longrightarrow> snd (Time_MarshalJSON dst) = None)
   \<and> (time_present dst
        \<and> (tm_year (time_value dst) < 0 \<or> 9999 < tm_year (time_value dst)) \<longrightarrow>
        snd (Time_MarshalJSON dst)
          = Some (ErrorString ''Time.MarshalJSON: year outside of range [0,9999]''))"
proof (intro conjI impI)
  show "snd (Bool_MarshalJSON b) = None" by (simp add: Bool_MarshalJSON_def)
  show "snd (Int_MarshalJSON i) = None" by (simp add: Int_MarshalJSON_def)
  show "snd (Time_MarshalJSON dst) = None" if "\<not> time_present dst"
    using that by (simp add: Time_MarshalJSON_def)
  show "snd (Time_MarshalJSON dst) = None"
    if "0 \<le> tm_year (time_value dst) \<and> tm_year (time_value dst) \<le> 9999
        \<and> \<bar>tm_offset (time_value dst)\<bar> < 86400"
    using that zone_hours_bound [of "tm_offset (time_value dst)"]
    by (simp add: Time_MarshalJSON_def time_MarshalJSON_def)
  show "snd (Time_MarshalJSON dst)
          = Some (ErrorString ''Time.MarshalJSON: year outside of range [0,9999]'')"
    if "time_present dst \<and> (tm_year (time_value dst) < 0 \<or> 9999 < tm_year (time_value dst))"
    using that by (auto simp: Time_MarshalJSON_def time_MarshalJSON_def)
qed

theorem C7_marshal_errors_witness:
  "snd (Bool_MarshalJSON \<lparr>bool_value = True, bool_present = True\<rparr>) = None
   \<and> snd (Int_MarshalJSON \<lparr>int_Value = 5, int_Present = True\<rparr>) = None
   \<and> snd (Time_MarshalJSON \<lparr>time_value = time_zero\<lparr>tm_year := 2023, tm_offset := 7200\<rparr>,
                              time_present = True\<rparr>) = None
   \<and> snd (Time_MarshalJSON \<lparr>time_value = time_zero\<lparr>tm_year := 10000\<rparr>,
                              time_present = False\<rparr>) = None
   \<and> snd (Time_MarshalJSON \<lparr>time_value = time_zero\<lparr>tm_year := - 1\<rparr>,
                              time_present = True\<rparr>)
       = Some (ErrorString ''Time.MarshalJSON: year outside of range [0,9999]'')"
  using
    C7_marshal_errors [of "\<lparr>bool_value = True, bool_present = True\<rparr>"
      "\<lparr>int_Value = 5, int_Present = True\<rparr>"
      "\<lparr>time_value = time_zero\<lparr>tm_year := 2023, tm_offset := 7200\<rparr>, time_present = True\<rparr>"]
    C7_marshal_errors [of "\<lparr>bool_value = True, bool_present = True\<rparr>"
      "\<lparr>int_Value = 5, int_Present = True\<rparr>"
      "\<lparr>time_value = time_zero\<lparr>tm_year := 10000\<rparr>, time_present = False\<rparr>"]
    C7_marshal_errors [of "\<lparr>bool_value = True, bool_present = True\<rparr>"
      "\<lparr>int_Value = 5, int_Present = True\<rparr>"
      "\<lparr>time_value = time_zero\<lparr>tm_year := - 1\<rparr>, time_present = True\<rparr>"]
  by (simp add: time_zero_def)

section \<open>Quoted and bare tokens\<close>

text \<open>
  Claim C6. Decoding the quoted token \<open>"true"\<close> (or \<open>"false"\<close>) into a Bool gives the
  same error and state as decoding the bare token, namely no error and the value
  present. Decoding a quoted JSON number into an Int gives the same error and state as
  decoding the bare number; this holds for every number token, so for every base-10
  integer literal, and for the literal of a 64-bit integer both give that integer,
  present, with no error.
\<close>

theorem C6_quoted_like_bare:
  "Bool_UnmarshalJSON b (quoted ''true'') = Bool_UnmarshalJSON b ''true''
   \<and> Bool_UnmarshalJSON b (quoted ''false'') = Bool_UnmarshalJSON b ''false''
   \<and> Bool_UnmarshalJSON b ''true'' = (None, \<lparr>bool_value = True, bool_present = True\<rparr>)
   \<and> Bool_UnmarshalJSON b ''false'' = (None, \<lparr>bool_value = False, bool_present = True\<rparr>)
   \<and> (isValidNumber s \<longrightarrow> Int_UnmarshalJSON i (quoted s) = Int_UnmarshalJSON i s)
   \<and> Int_UnmarshalJSON i (quoted (fmt_d (sint w))) = Int_UnmarshalJSON i (fmt_d (sint w))
   \<and> Int_UnmarshalJSON i (fmt_d (sint w)) = (None, \<lparr>int_Value = w, int_Present = True\<rparr>)"
proof (intro conjI impI)
  show "Bool_UnmarshalJSON b (quoted ''true'') = Bool_UnmarshalJSON b ''true''"
    by (simp add: bool_eval)
  show "Bool_UnmarshalJSON b (quoted ''false'') = Bool_UnmarshalJSON b ''false''"
    by (simp add: bool_eval)
  show "Bool_UnmarshalJSON b ''true'' = (None, \<lparr>bool_value = True, bool_present = True\<rparr>)"
    by (cases b) (simp add: bool_eval)
  show "Bool_UnmarshalJSON b ''false'' = (None, \<lparr>bool_value = False, bool_present = True\<rparr>)"
    by (cases b) (simp add: bool_eval)
  show "Int_UnmarshalJSON i (quoted s) = Int_UnmarshalJSON i s" if "isValidNumber s"
    by (simp add: Int_UnmarshalJSON_number [OF that] Int_UnmarshalJSON_quoted_number [OF that])
  show "Int_UnmarshalJSON i (quoted (fmt_d (sint w))) = Int_UnmarshalJSON i (fmt_d (sint w))"
    by (simp add: Int_UnmarshalJSON_number [OF isValidNumber_fmt_d]
        Int_UnmarshalJSON_quoted_number [OF isValidNumber_fmt_d])
  show "Int_UnmarshalJSON i (fmt_d (sint w)) = (None, \<lparr>int_Value = w, int_Present = True\<rparr>)"
    by (simp add: Int_UnmarshalJSON_number [OF isValidNumber_fmt_d] strconv_ParseInt_fmt_d)
qed

theorem C6_quoted_like_bare_witness:
  "isValidNumber ''123''
   \<and> Int_UnmarshalJSON \<lparr>int_Value = 7, int_Present = True\<rparr> (quoted ''123'')
      = Int_UnmarshalJSON \<lparr>int_Value = 7, int_Present = True\<rparr> ''123''
   \<and> Int_UnmarshalJSON \<lparr>int_Value = 7, int_Present = True\<rparr> ''123''
      = (None, \<lparr>int_Value = 123, int_Present = True\<rparr>)"
proof -
  have v: "isValidNumber ''123''" by (simp add: number_eval)
  have f: "fmt_d (sint (123 :: 64 word)) = ''123''"
    by (simp add: fmt_d_def dec_nat.simps digit_char_def)
  show ?thesis
    using v f C6_quoted_like_bare [of "\<lparr>bool_value = False, bool_present = False\<rparr>" "''123''"
        "\<lparr>int_Value = 7, int_Present = True\<rparr>" 123]
    by simp
qed

section \<open>Numbers that are not integers\<close>

text \<open>
  Claim C9. For every numeric token (a JSON number) that is not a base-10 integer
  literal, such as \<open>1.5\<close>, \<open>Int.UnmarshalJSON\<close> returns the error of the number parser
  and leaves the instance not present with the value 0. The error is the syntax error,
  met at the first byte that is not a digit; it is the range error only when the digits
  before that byte already write a number beyond 64 bits.
\<close>

theorem C9_non_integral_rejected:
  assumes "isValidNumber s" and "\<not> integer_literal s"
  shows "Int_UnmarshalJSON i s
     = (Some (NumError s
          (if dec_val (takeWhile isDigit (if hd s = CHR ''-'' then tl s else s)) \<le> maxUint64
           then ErrSyntax else ErrRange)),
        \<lparr>int_Value = 0, int_Present = False\<rparr>)"
  by (simp add: Int_UnmarshalJSON_number [OF assms(1)] strconv_ParseInt_not_integer [OF assms])

theorem C9_non_integral_rejected_witness:
  "isValidNumber ''1.5'' \<and> \<not> integer_literal ''1.5''
   \<and> Int_UnmarshalJSON \<lparr>int_Value = 7, int_Present = True\<rparr> ''1.5''
      = (Some (NumError ''1.5'' ErrSyntax), \<lparr>int_Value = 0, int_Present = False\<rparr>)"
proof -
  have v: "isValidNumber ''1.5''" by (simp add: number_eval)
  have n: "\<not> integer_literal ''1.5''" by (simp add: number_eval)
  have k: "dec_val (takeWhile isDigit ''1.5'') \<le> maxUint64"
    by (simp add: isDigit_def dec_val_def digit_val_def maxUint64_def)
  show ?thesis
    using v n k C9_non_integral_rejected [OF v n, of "\<lparr>int_Value = 7, int_Present = True\<rparr>"]
    by simp
qed

section \<open>Round trip\<close>

text \<open>
  Claim C5, as stated, fails for String and Timestamp. \<open>Set\<close> checks nothing, so every
  Go string and every \<open>time.Time\<close> is a value that it takes, and some of them do not
  come back. For the kind String: \<open>json.Marshal\<close> writes \<open>U+FFFD\<close> for a byte that is not
  well-formed UTF-8, so the byte \<open>0xFF\<close> decodes to the three bytes of \<open>U+FFFD\<close>. For the
  kind Timestamp: a time in the year 10000 is not encoded, \<open>MarshalJSON\<close> returns an
  error; so does a time whose zone is 25 hours east of UTC, which is the time that the
  decoder of the package itself returns for the offset \<open>+24:60\<close>; and a time whose zone is
  1172 seconds east of UTC is written with the offset \<open>+00:19\<close>, and decodes to a time
  whose zone is 1140 seconds east.
\<close>

theorem C5_round_trip_counterexample:
  "String_UnmarshalJSON \<lparr>string_value = [], string_present = False\<rparr>
        (fst (String_MarshalJSON (String_Set \<lparr>string_value = [], string_present = False\<rparr>
                                   [CHR 0xFF])))
       = (None, \<lparr>string_value = [CHR 0xEF, CHR 0xBF, CHR 0xBD], string_present = True\<rparr>)
   \<and> Time_MarshalJSON (Time_Set \<lparr>time_value = time_zero, time_present = False\<rparr>
          (time_zero\<lparr>tm_year := 10000\<rparr>))
       = ([], Some (ErrorString ''Time.MarshalJSON: year outside of range [0,9999]''))
   \<and> Time_UnmarshalJSON utc_host \<lparr>time_value = time_zero, time_present = False\<rparr>
          (quoted ''2023-10-05T14:48:00+24:60'')
       = (None, \<lparr>time_value = \<lparr>tm_year = 2023, tm_month = 10, tm_day = 5, tm_hour = 14,
                                 tm_min = 48, tm_sec = 0, tm_nsec = 0, tm_offset = 90000\<rparr>,
                 time_present = True\<rparr>)
   \<and> Time_MarshalJSON (Time_Set \<lparr>time_value = time_zero, time_present = False\<rparr>
          \<lparr>tm_year = 2023, tm_month = 10, tm_day = 5, tm_hour = 14, tm_min = 48,
           tm_sec = 0, tm_nsec = 0, tm_offset = 90000\<rparr>)
       = ([], Some (ErrorString ''Time.MarshalJSON: timezone hour outside of range [0,23]''))
   \<and> Time_MarshalJSON (Time_Set \<lparr>time_value = time_zero, time_present = False\<rparr>
          \<lparr>tm_year = 2023, tm_month = 10, tm_day = 5, tm_hour = 14, tm_min = 48,
           tm_sec = 0, tm_nsec = 0, tm_offset = 1172\<rparr>)
       = (quoted ''2023-10-05T14:48:00+00:19'', None)
   \<and> Time_UnmarshalJSON utc_host \<lparr>time_value = time_zero, time_present = False\<rparr>
          (quoted ''2023-10-05T14:48:00+00:19'')
       = (None, \<lparr>time_value = \<lparr>tm_year = 2023, tm_month = 10, tm_day = 5, tm_hour = 14,
                                 tm_min = 48, tm_sec = 0, tm_nsec = 0, tm_offset = 1140\<rparr>,
                 time_present = True\<rparr>)"
proof -
  let ?d = "\<lparr>time_value = time_zero, time_present = False\<rparr>"
  have s: "String_UnmarshalJSON \<lparr>string_value = [], string_present = False\<rparr>
        (fst (String_MarshalJSON (String_Set \<lparr>string_value = [], string_present = False\<rparr>
                                   [CHR 0xFF])))
       = (None, \<lparr>string_value = [CHR 0xEF, CHR 0xBF, CHR 0xBD], string_present = True\<rparr>)"
    by (simp add: utf8_eval String_UnmarshalJSON_def String_MarshalJSON_def String_Set_def
        String_Value_def json_Marshal_string_def appendString.simps json_eval
        utf16_IsSurrogate_def utf8_EncodeRune_def char_of_def bit_Suc_0_iff)
  have y: "Time_MarshalJSON (Time_Set ?d (time_zero\<lparr>tm_year := 10000\<rparr>))
       = ([], Some (ErrorString ''Time.MarshalJSON: year outside of range [0,9999]''))"
    by (simp add: Time_MarshalJSON_def Time_Set_def time_MarshalJSON_def time_zero_def)
  have d1: "Time_UnmarshalJSON utc_host ?d (quoted ''2023-10-05T14:48:00+24:60'')
       = (None, \<lparr>time_value = \<lparr>tm_year = 2023, tm_month = 10, tm_day = 5, tm_hour = 14,
                                 tm_min = 48, tm_sec = 0, tm_nsec = 0, tm_offset = 90000\<rparr>,
                 time_present = True\<rparr>)"
    by (simp add: Time_UnmarshalJSON_def time_eval)
  have e1: "Time_MarshalJSON (Time_Set ?d
          \<lparr>tm_year = 2023, tm_month = 10, tm_day = 5, tm_hour = 14, tm_min = 48,
           tm_sec = 0, tm_nsec = 0, tm_offset = 90000\<rparr>)
       = ([], Some (ErrorString ''Time.MarshalJSON: timezone hour outside of range [0,23]''))"
    by (simp add: Time_MarshalJSON_def Time_Set_def time_MarshalJSON_def zone_minutes_def)
  have e2: "Time_MarshalJSON (Time_Set ?d
          \<lparr>tm_year = 2023, tm_month = 10, tm_day = 5, tm_hour = 14, tm_min = 48,
           tm_sec = 0, tm_nsec = 0, tm_offset = 1172\<rparr>)
       = (quoted ''2023-10-05T14:48:00+00:19'', None)"
    by (simp add: Time_MarshalJSON_def Time_Set_def time_MarshalJSON_def zone_minutes_def
        formatRFC3339Nano_def formatNano_def formatZone_def pad2_def pad4_def digit_char_def)
  have d2: "Time_UnmarshalJSON utc_host ?d (quoted ''2023-10-05T14:48:00+00:19'')
       = (None, \<lparr>time_value = \<lparr>tm_year = 2023, tm_month = 10, tm_day = 5, tm_hour = 14,
                                 tm_min = 48, tm_sec = 0, tm_nsec = 0, tm_offset = 1140\<rparr>,
                 time_present = True\<rparr>)"
    by (simp add: Time_UnmarshalJSON_def time_eval)
  from s y d1 e1 e2 d2 show ?thesis by simp
qed

text \<open>
  Claim C5, amended. \<open>Set(v)\<close> followed by \<open>MarshalJSON\<close> returns no error, and decoding
  the bytes it produced, into any instance, returns no error and leaves that instance
  present with the value \<open>v\<close>, for every value \<open>v\<close> that the wire format of its kind can
  carry: every Bool; every Int (a 64-bit integer); every String of well-formed UTF-8;
  every Timestamp with a year from 0 to 9999 and a zone offset of whole minutes below 24
  hours (\<open>rfc3339_time\<close>).
\<close>

theorem C5_round_trip:
  "Bool_MarshalJSON (Bool_Set b v) = (if v then ''true'' else ''false'', None)
   \<and> Bool_UnmarshalJSON b' (fst (Bool_MarshalJSON (Bool_Set b v)))
       = (None, \<lparr>bool_value = v, bool_present = True\<rparr>)
   \<and> snd (Int_MarshalJSON (Int_Set i w)) = None
   \<and> Int_UnmarshalJSON i' (fst (Int_MarshalJSON (Int_Set i w)))
       = (None, \<lparr>int_Value = w, int_Present = True\<rparr>)
   \<and> snd (String_MarshalJSON (String_Set x s)) = None
   \<and> (utf8_Valid s \<longrightarrow>
        String_UnmarshalJSON x' (fst (String_MarshalJSON (String_Set x s)))
          = (None, \<lparr>string_value = s, string_present = True\<rparr>))
   \<and> (rfc3339_time t \<longrightarrow>
        snd (Time_MarshalJSON (Time_Set d t)) = None
        \<and> Time_UnmarshalJSON zs d' (fst (Time_MarshalJSON (Time_Set d t)))
          = (None, \<lparr>time_value = t, time_present = True\<rparr>))"
proof (intro conjI impI)
  show "Bool_MarshalJSON (Bool_Set b v) = (if v then ''true'' else ''false'', None)"
    by (simp add: Bool_MarshalJSON_def Bool_Set_def)
  show "Bool_UnmarshalJSON b' (fst (Bool_MarshalJSON (Bool_Set b v)))
       = (None, \<lparr>bool_value = v, bool_present = True\<rparr>)"
    by (cases b'; cases v) (simp_all add: Bool_MarshalJSON_def Bool_Set_def bool_eval)
  show "snd (Int_MarshalJSON (Int_Set i w)) = None" by (simp add: Int_MarshalJSON_def)
  show "Int_UnmarshalJSON i' (fst (Int_MarshalJSON (Int_Set i w)))
       = (None, \<lparr>int_Value = w, int_Present = True\<rparr>)"
    by (simp add: Int_MarshalJSON_def Int_Set_def Int_Get_def
        Int_UnmarshalJSON_number [OF isValidNumber_fmt_d] strconv_ParseInt_fmt_d)
  show "snd (String_MarshalJSON (String_Set x s)) = None"
    by (simp add: String_MarshalJSON_def json_Marshal_string_def)
  show "String_UnmarshalJSON x' (fst (String_MarshalJSON (String_Set x s)))
          = (None, \<lparr>string_value = s, string_present = True\<rparr>)" if "utf8_Valid s"
  proof -
    let ?tok = "fst (json_Marshal_string s)"
    have tok: "?tok = quoted (appendString s)" by (simp add: json_Marshal_string_def)
    have "json_Unmarshal_string ?tok cur = Inr s" for cur
      using json_unquote_Marshal_valid [OF that]
      by (simp add: json_Unmarshal_string_def tok json_trim_quoted quoted_not_null)
    then show ?thesis
      using quoted_not_null [of "appendString s"]
      by (cases x') (simp add: String_UnmarshalJSON_def String_MarshalJSON_def String_Set_def
          String_Value_def tok [symmetric])
  qed
  assume r: "rfc3339_time t"
  then have wf: "time_wf t" and y: "0 \<le> tm_year t" "tm_year t \<le> 9999"
    and m: "tm_offset t mod 60 = 0" and a: "\<bar>tm_offset t\<bar> < 86400"
    by (simp_all add: rfc3339_time_def)
  have z: "zone_minutes (tm_offset t) div 60 < 24" by (rule zone_hours_bound [OF a])
  have enc: "Time_MarshalJSON (Time_Set d t) = (quoted (formatRFC3339Nano t), None)"
    using y z by (simp add: Time_MarshalJSON_def Time_Set_def time_MarshalJSON_def)
  show "snd (Time_MarshalJSON (Time_Set d t)) = None" by (simp add: enc)
  have "time_Parse zs RFC3339 (formatRFC3339Nano t) = Inr t"
    using time_Parse_format [OF wf y z, of zs] by (simp add: offset_minutes_whole [OF m])
  then show "Time_UnmarshalJSON zs d' (fst (Time_MarshalJSON (Time_Set d t)))
          = (None, \<lparr>time_value = t, time_present = True\<rparr>)"
    by (simp add: enc Time_decode_quoted_format)
qed

theorem C5_round_trip_witness:
  "utf8_Valid (''h'' @ [quote_ch, CHR 0xC3, CHR 0xA9])
   \<and> String_UnmarshalJSON \<lparr>string_value = ''old'', string_present = True\<rparr>
        (fst (String_MarshalJSON (String_Set \<lparr>string_value = [], string_present = False\<rparr>
                                   (''h'' @ [quote_ch, CHR 0xC3, CHR 0xA9]))))
       = (None, \<lparr>string_value = ''h'' @ [quote_ch, CHR 0xC3, CHR 0xA9], string_present = True\<rparr>)
   \<and> rfc3339_time \<lparr>tm_year = 2023, tm_month = 10, tm_day = 5, tm_hour = 14, tm_min = 48,
                     tm_sec = 0, tm_nsec = 123000000, tm_offset = 7200\<rparr>
   \<and> Time_UnmarshalJSON utc_host \<lparr>time_value = time_zero, time_present = False\<rparr>
        (fst (Time_MarshalJSON (Time_Set \<lparr>time_value = time_zero, time_present = False\<rparr>
           \<lparr>tm_year = 2023, tm_month = 10, tm_day = 5, tm_hour = 14, tm_min = 48,
            tm_sec = 0, tm_nsec = 123000000, tm_offset = 7200\<rparr>)))
       = (None, \<lparr>time_value = \<lparr>tm_year = 2023, tm_month = 10, tm_day = 5, tm_hour = 14,
                                 tm_min = 48, tm_sec = 0, tm_nsec = 123000000,
                                 tm_offset = 7200\<rparr>,
                 time_present = True\<rparr>)
   \<and> Int_UnmarshalJSON \<lparr>int_Value = 0, int_Present = False\<rparr>
        (fst (Int_MarshalJSON (Int_Set \<lparr>int_Value = 0, int_Present = False\<rparr> (- 42))))
       = (None, \<lparr>int_Value = - 42, int_Present = True\<rparr>)
   \<and> Bool_UnmarshalJSON \<lparr>bool_value = False, bool_present = False\<rparr>
        (fst (Bool_MarshalJSON (Bool_Set \<lparr>bool_value = False, bool_present = False\<rparr> True)))
       = (None, \<lparr>bool_value = True, bool_present = True\<rparr>)"
proof -
  let ?s = "''h'' @ [quote_ch, CHR 0xC3, CHR 0xA9]"
  let ?t = "\<lparr>tm_year = 2023, tm_month = 10, tm_day = 5, tm_hour = 14, tm_min = 48,
             tm_sec = 0, tm_nsec = 123000000, tm_offset = 7200\<rparr>"
  have v: "utf8_Valid ?s" by (simp add: utf8_eval quote_ch_def)
  have r: "rfc3339_time ?t" by (simp add: rfc3339_time_def time_wf_def daysIn_def isLeap_def)
  show ?thesis
    using v r
      C5_round_trip [of "\<lparr>bool_value = False, bool_present = False\<rparr>" True
        "\<lparr>bool_value = False, bool_present = False\<rparr>"
        "\<lparr>int_Value = 0, int_Present = False\<rparr>" "- 42"
        "\<lparr>int_Value = 0, int_Present = False\<rparr>"
        "\<lparr>string_value = [], string_present = False\<rparr>" ?s
        "\<lparr>string_value = ''old'', string_present = True\<rparr>" ?t
        "\<lparr>time_value = time_zero, time_present = False\<rparr>" utc_host
        "\<lparr>time_value = time_zero, time_present = False\<rparr>"]
    by blast
qed

section \<open>The tokens that the encoders write\<close>

text \<open>
  Claim C2, as stated, fails for Int and String: \<open>MarshalJSON\<close> encodes what the
  accessor returns, so an instance that is not present yields the token of the zero
  value, \<open>0\<close> or \<open>""\<close>, and not \<open>null\<close> (the tests of the package expect these tokens).
\<close>

theorem C2_absent_int_string_counterexample:
  "Int_MarshalJSON \<lparr>int_Value = 0, int_Present = False\<rparr> = (''0'', None)
   \<and> String_MarshalJSON \<lparr>string_value = [], string_present = False\<rparr>
       = ([quote_ch, quote_ch], None)"
  by (simp add: Int_MarshalJSON_def Int_Get_def fmt_d_def dec_nat.simps digit_char_def
      String_MarshalJSON_def String_Value_def json_Marshal_string_def appendString.simps
      quoted_def)

text \<open>
  Claim C2, amended. Encoding an instance that is not present yields \<open>null\<close> for Bool
  and Timestamp, \<open>0\<close> for Int and \<open>""\<close> for String. Encoding a present instance yields
  a token of the kind: \<open>true\<close> or \<open>false\<close> for Bool; a base-10 integer literal that is
  a JSON number for Int; a JSON string literal for String; and for Timestamp, when the
  encoder returns no error, a quoted text that the layout RFC 3339 parses.
\<close>

theorem C2_encoded_tokens:
  "(\<not> bool_present b \<longrightarrow> Bool_MarshalJSON b = (''null'', None))
   \<and> (\<not> time_present dst \<longrightarrow> Time_MarshalJSON dst = (''null'', None))
   \<and> (\<not> int_Present i \<longrightarrow> Int_MarshalJSON i = (''0'', None))
   \<and> (\<not> string_present s \<longrightarrow> String_MarshalJSON s = ([quote_ch, quote_ch], None))
   \<and> (bool_present b \<longrightarrow>
        Bool_MarshalJSON b = (''true'', None) \<or> Bool_MarshalJSON b = (''false'', None))
   \<and> (int_Present i \<longrightarrow>
        snd (Int_MarshalJSON i) = None \<and> integer_literal (fst (Int_MarshalJSON i))
        \<and> isValidNumber (fst (Int_MarshalJSON i)))
   \<and> (string_present s \<longrightarrow>
        snd (String_MarshalJSON s) = None
        \<and> (\<exists>t. json_unquote (fst (String_MarshalJSON s)) = Some t))
   \<and> (time_present dst \<and> time_wf (time_value dst) \<and> snd (Time_MarshalJSON dst) = None \<longrightarrow>
        (\<exists>f t'. fst (Time_MarshalJSON dst) = quoted f \<and> time_Parse zs RFC3339 f = Inr t'))"
proof (intro conjI impI)
  show "Bool_MarshalJSON b = (''null'', None)" if "\<not> bool_present b"
    using that by (simp add: Bool_MarshalJSON_def)
  show "Time_MarshalJSON dst = (''null'', None)" if "\<not> time_present dst"
    using that by (simp add: Time_MarshalJSON_def)
  show "Int_MarshalJSON i = (''0'', None)" if "\<not> int_Present i"
    using that
    by (simp add: Int_MarshalJSON_def Int_Get_def fmt_d_def dec_nat.simps digit_char_def)
  show "String_MarshalJSON s = ([quote_ch, quote_ch], None)" if "\<not> string_present s"
    using that
    by (simp add: String_MarshalJSON_def String_Value_def json_Marshal_string_def
        appendString.simps quoted_def)
  show "Bool_MarshalJSON b = (''true'', None) \<or> Bool_MarshalJSON b = (''false'', None)"
    if "bool_present b"
    using that by (simp add: Bool_MarshalJSON_def)
  show "snd (Int_MarshalJSON i) = None" by (simp add: Int_MarshalJSON_def)
  show "integer_literal (fst (Int_MarshalJSON i))"
    by (simp add: Int_MarshalJSON_def integer_literal_fmt_d)
  show "isValidNumber (fst (Int_MarshalJSON i))"
    by (simp add: Int_MarshalJSON_def isValidNumber_fmt_d)
  show "snd (String_MarshalJSON s) = None"
    by (simp add: String_MarshalJSON_def json_Marshal_string_def)
  show "\<exists>t. json_unquote (fst (String_MarshalJSON s)) = Some t"
    using json_unquote_Marshal [of "String_Value s"] by (simp add: String_MarshalJSON_def)
  assume a: "time_present dst \<and> time_wf (time_value dst) \<and> snd (Time_MarshalJSON dst) = None"
  let ?t = "time_value dst"
  from a have p: "time_present dst" by simp
  then have eq: "Time_MarshalJSON dst = time_MarshalJSON ?t" by (simp add: Time_MarshalJSON_def)
  from a have ok: "snd (time_MarshalJSON ?t) = None" by (simp add: eq)
  then have y: "0 \<le> tm_year ?t" "tm_year ?t \<le> 9999"
    by (auto simp: time_MarshalJSON_def split: if_splits)
  have z: "zone_minutes (tm_offset ?t) div 60 < 24"
  proof (cases "tm_offset ?t = 0")
    case True
    then show ?thesis by (simp add: zone_minutes_def)
  next
    case False
    with ok show ?thesis by (auto simp: time_MarshalJSON_def split: if_splits)
  qed
  have enc: "fst (Time_MarshalJSON dst) = quoted (formatRFC3339Nano ?t)"
    using y z by (simp add: eq time_MarshalJSON_def)
  from a have wf: "time_wf ?t" by simp
  show "\<exists>f t'. fst (Time_MarshalJSON dst) = quoted f \<and> time_Parse zs RFC3339 f = Inr t'"
    using enc time_Parse_format [OF wf y z, of zs] by blast
qed


theorem C2_encoded_tokens_witness:
  "Bool_MarshalJSON \<lparr>bool_value = True, bool_present = False\<rparr> = (''null'', None)
   \<and> Time_MarshalJSON \<lparr>time_value = time_zero\<lparr>tm_year := 2023\<rparr>, time_present = False\<rparr>
       = (''null'', None)
   \<and> Int_MarshalJSON \<lparr>int_Value = 5, int_Present = False\<rparr> = (''0'', None)
   \<and> String_MarshalJSON \<lparr>string_value = ''a'', string_present = False\<rparr>
       = ([quote_ch, quote_ch], None)
   \<and> (Bool_MarshalJSON \<lparr>bool_value = True, bool_present = True\<rparr> = (''true'', None)
        \<or> Bool_MarshalJSON \<lparr>bool_value = True, bool_present = True\<rparr> = (''false'', None))
   \<and> integer_literal (fst (Int_MarshalJSON \<lparr>int_Value = 5, int_Present = True\<rparr>))
   \<and> isValidNumber (fst (Int_MarshalJSON \<lparr>int_Value = 5, int_Present = True\<rparr>))
   \<and> (\<exists>t. json_unquote (fst (String_MarshalJSON \<lparr>string_value = ''a'', string_present = True\<rparr>))
          = Some t)
   \<and> time_wf (time_zero\<lparr>tm_year := 2023\<rparr>)
   \<and> snd (Time_MarshalJSON \<lparr>time_value = time_zero\<lparr>tm_year := 2023\<rparr>, time_present = True\<rparr>)
       = None
   \<and> (\<exists>f t'. fst (Time_MarshalJSON \<lparr>time_value = time_zero\<lparr>tm_year := 2023\<rparr>,
                                       time_present = True\<rparr>) = quoted f
          \<and> time_Parse utc_host RFC3339 f = Inr t')"
proof -
  let ?t = "time_zero\<lparr>tm_year := 2023\<rparr>"
  have wf: "time_wf ?t" by (simp add: time_wf_def time_zero_def daysIn_def)
  have ok: "snd (Time_MarshalJSON \<lparr>time_value = ?t, time_present = True\<rparr>) = None"
    by (simp add: Time_MarshalJSON_def time_MarshalJSON_def time_zero_def)
  note absent = C2_encoded_tokens
    [of "\<lparr>bool_value = True, bool_present = False\<rparr>"
        "\<lparr>time_value = ?t, time_present = False\<rparr>"
        "\<lparr>int_Value = 5, int_Present = False\<rparr>"
        "\<lparr>string_value = ''a'', string_present = False\<rparr>" utc_host]
  note present = C2_encoded_tokens
    [of "\<lparr>bool_value = True, bool_present = True\<rparr>"
        "\<lparr>time_value = ?t, time_present = True\<rparr>"
        "\<lparr>int_Value = 5, int_Present = True\<rparr>"
        "\<lparr>string_value = ''a'', string_present = True\<rparr>" utc_host]
  have a: "Bool_MarshalJSON \<lparr>bool_value = True, bool_present = False\<rparr> = (''null'', None)"
    "Time_MarshalJSON \<lparr>time_value = ?t, time_present = False\<rparr> = (''null'', None)"
    "Int_MarshalJSON \<lparr>int_Value = 5, int_Present = False\<rparr> = (''0'', None)"
    "String_MarshalJSON \<lparr>string_value = ''a'', string_present = False\<rparr>
       = ([quote_ch, quote_ch], None)"
    using absent by simp_all
  have p: "Bool_MarshalJSON \<lparr>bool_value = True, bool_present = True\<rparr> = (''true'', None)
        \<or> Bool_MarshalJSON \<lparr>bool_value = True, bool_present = True\<rparr> = (''false'', None)"
    "integer_literal (fst (Int_MarshalJSON \<lparr>int_Value = 5, int_Present = True\<rparr>))"
    "isValidNumber (fst (Int_MarshalJSON \<lparr>int_Value = 5, int_Present = True\<rparr>))"
    "\<exists>t. json_unquote (fst (String_MarshalJSON \<lparr>string_value = ''a'', string_present = True\<rparr>))
          = Some t"
    using present by simp_all
  have q: "\<exists>f t'. fst (Time_MarshalJSON \<lparr>time_value = ?t, time_present = True\<rparr>) = quoted f
          \<and> time_Parse utc_host RFC3339 f = Inr t'"
    using present wf ok by simp
  from a p q wf ok show ?thesis by blast
qed

end
